theory Spec2Isabelle
  imports Main "HOL-Library.Word" "HOL-Library.Char_ord" "HOL-Library.List_Lexorder"
    "HOL-Library.AList"
begin

section \<open>Strings and decimal numbers\<close>

text \<open>
  Go strings are modelled as \<^typ>\<open>string\<close>, one \<^typ>\<open>char\<close> per rune, which covers every
  name whose runes lie below U+0100 (in particular every ASCII name). The helpers below are
  the functions of Go's \<^verbatim>\<open>strings\<close> and \<^verbatim>\<open>strconv\<close> packages that the plugin code and the
  semantic-version library call.
\<close>

definition is_digit :: "char \<Rightarrow> bool" where
  "is_digit c = (CHR ''0'' \<le> c \<and> c \<le> CHR ''9'')"

definition is_lower :: "char \<Rightarrow> bool" where
  "is_lower c = (CHR ''a'' \<le> c \<and> c \<le> CHR ''z'')"

definition is_upper :: "char \<Rightarrow> bool" where
  "is_upper c = (CHR ''A'' \<le> c \<and> c \<le> CHR ''Z'')"

definition is_alnum :: "char \<Rightarrow> bool" where
  "is_alnum c = (is_lower c \<or> is_upper c \<or> is_digit c)"

definition digit_char :: "int \<Rightarrow> char" where
  "digit_char d = char_of (48 + d)"

definition digit_val :: "char \<Rightarrow> int" where
  "digit_val c = of_char c - 48"

text \<open>\<^verbatim>\<open>strconv.FormatUint(n, 10)\<close>: the decimal digits of \<open>n\<close>, most significant first
  (the argument is the unsigned value, never negative).\<close>

function FormatUint :: "int \<Rightarrow> string" where
  "FormatUint n = (if n < 10 then [digit_char n]
                   else FormatUint (n div 10) @ [digit_char (n mod 10)])"
  by pat_completeness auto
termination
  by (relation "measure nat") auto

declare FormatUint.simps [simp del]

definition decimal_value :: "string \<Rightarrow> int" where
  "decimal_value s = foldl (\<lambda>a c. 10 * a + digit_val c) 0 s"

text \<open>
  \<^verbatim>\<open>strconv.ParseUint(s, 10, 64)\<close>: fails on the empty string, on any character that is
  not a decimal digit, and on a value that does not fit 64 bits.
\<close>

definition ParseUint :: "string \<Rightarrow> 64 word option" where
  "ParseUint s =
     (if s = [] \<or> \<not> list_all is_digit s then None
      else if decimal_value s < 2 ^ 64 then Some (word_of_int (decimal_value s))
      else None)"

text \<open>\<^verbatim>\<open>strings.SplitN(s, sep, n)\<close> for a one-character separator and \<open>n > 0\<close>.\<close>

fun SplitN :: "string \<Rightarrow> char \<Rightarrow> nat \<Rightarrow> string list" where
  "SplitN s sep 0 = []"
| "SplitN s sep (Suc 0) = [s]"
| "SplitN s sep (Suc (Suc n)) =
     (if sep \<in> set s
      then takeWhile (\<lambda>c. c \<noteq> sep) s # SplitN (tl (dropWhile (\<lambda>c. c \<noteq> sep) s)) sep (Suc n)
      else [s])"

text \<open>\<^verbatim>\<open>strings.Split(s, sep)\<close> for a one-character separator.\<close>

fun Split :: "string \<Rightarrow> char \<Rightarrow> string list" where
  "Split [] sep = [[]]"
| "Split (c # cs) sep =
     (if c = sep then [] # Split cs sep
      else (case Split cs sep of [] \<Rightarrow> [[c]] | p # ps \<Rightarrow> (c # p) # ps))"

text \<open>\<^verbatim>\<open>strings.Join(parts, sep)\<close>.\<close>

fun Join :: "string list \<Rightarrow> string \<Rightarrow> string" where
  "Join [] sep = []"
| "Join [p] sep = p"
| "Join (p # q # ps) sep = p @ sep @ Join (q # ps) sep"

text \<open>The white space of \<^verbatim>\<open>unicode.IsSpace\<close> below U+0100.\<close>

definition is_space :: "char \<Rightarrow> bool" where
  "is_space c = (c \<in> set [CHR 0x09, CHR 0x0A, CHR 0x0B, CHR 0x0C, CHR 0x0D, CHR '' '',
                            CHR 0x85, CHR 0xA0])"

definition TrimSpace :: "string \<Rightarrow> string" where
  "TrimSpace s = rev (dropWhile is_space (rev (dropWhile is_space s)))"

definition TrimPrefix :: "string \<Rightarrow> string \<Rightarrow> string" where
  "TrimPrefix s p = (if take (length p) s = p then drop (length p) s else s)"

section \<open>Semantic versions (package \<^verbatim>\<open>github.com/blang/semver\<close>)\<close>

text \<open>
  The plugin code imports the semantic-version library; its types and the functions the
  plugin code calls (\<^verbatim>\<open>String\<close>, \<^verbatim>\<open>Parse\<close>, \<^verbatim>\<open>ParseTolerant\<close>, \<^verbatim>\<open>Compare\<close>, \<^verbatim>\<open>GT\<close>,
  \<^verbatim>\<open>GTE\<close>) are modelled here after the library.
\<close>

record PRVersion =
  VersionStr :: string
  VersionNum :: "64 word"
  IsNum :: bool

record semver =
  Major :: "64 word"
  Minor :: "64 word"
  Patch :: "64 word"
  Pre :: "PRVersion list"
  Build :: "string list"

definition PRVersion_String :: "PRVersion \<Rightarrow> string" where
  "PRVersion_String p = (if IsNum p then FormatUint (uint (VersionNum p)) else VersionStr p)"

definition semver_String :: "semver \<Rightarrow> string" where
  "semver_String v =
     FormatUint (uint (Major v)) @ ''.'' @ FormatUint (uint (Minor v)) @ ''.'' @
     FormatUint (uint (Patch v)) @
     (if Pre v \<noteq> [] then ''-'' @ Join (map PRVersion_String (Pre v)) ''.'' else []) @
     (if Build v \<noteq> [] then ''+'' @ Join (Build v) ''.'' else [])"

definition numbers :: "char \<Rightarrow> bool" where
  "numbers c = is_digit c"

definition alphanum :: "char \<Rightarrow> bool" where
  "alphanum c = (is_alnum c \<or> c = CHR ''-'')"

definition containsOnly :: "string \<Rightarrow> (char \<Rightarrow> bool) \<Rightarrow> bool" where
  "containsOnly s cls = list_all cls s"

definition hasLeadingZeroes :: "string \<Rightarrow> bool" where
  "hasLeadingZeroes s = (length s > 1 \<and> hd s = CHR ''0'')"

definition NewPRVersion :: "string \<Rightarrow> PRVersion option" where
  "NewPRVersion s =
     (if s = [] then None
      else if containsOnly s numbers then
        (if hasLeadingZeroes s then None
         else (case ParseUint s of
                 None \<Rightarrow> None
               | Some n \<Rightarrow> Some \<lparr>VersionStr = [], VersionNum = n, IsNum = True\<rparr>))
      else if containsOnly s alphanum then
        Some \<lparr>VersionStr = s, VersionNum = 0, IsNum = False\<rparr>
      else None)"

text \<open>The loop over the prerelease identifiers: the first bad identifier fails the parse.\<close>

fun parse_prerelease :: "string list \<Rightarrow> PRVersion list option" where
  "parse_prerelease [] = Some []"
| "parse_prerelease (s # ss) =
     (case NewPRVersion s of
        None \<Rightarrow> None
      | Some p \<Rightarrow> (case parse_prerelease ss of None \<Rightarrow> None | Some ps \<Rightarrow> Some (p # ps)))"

definition build_ok :: "string \<Rightarrow> bool" where
  "build_ok s = (s \<noteq> [] \<and> containsOnly s alphanum)"

definition parse_number :: "string \<Rightarrow> 64 word option" where
  "parse_number s =
     (if \<not> containsOnly s numbers then None
      else if hasLeadingZeroes s then None
      else ParseUint s)"

definition semver_Parse :: "string \<Rightarrow> semver option" where
  "semver_Parse s =
     (if s = [] then None
      else (case SplitN s CHR ''.'' 3 of
        [p0, p1, p2] \<Rightarrow>
          (case parse_number p0 of None \<Rightarrow> None | Some major \<Rightarrow>
          (case parse_number p1 of None \<Rightarrow> None | Some minor \<Rightarrow>
            (let build = (if CHR ''+'' \<in> set p2
                          then Split (tl (dropWhile (\<lambda>c. c \<noteq> CHR ''+'') p2)) CHR ''.''
                          else []);
                 patchStr1 = takeWhile (\<lambda>c. c \<noteq> CHR ''+'') p2;
                 prerelease = (if CHR ''-'' \<in> set patchStr1
                               then Split (tl (dropWhile (\<lambda>c. c \<noteq> CHR ''-'') patchStr1)) CHR ''.''
                               else []);
                 patchStr = takeWhile (\<lambda>c. c \<noteq> CHR ''-'') patchStr1
             in (case parse_number patchStr of None \<Rightarrow> None | Some patch \<Rightarrow>
                (case parse_prerelease prerelease of None \<Rightarrow> None | Some pre \<Rightarrow>
                  (if list_all build_ok build
                   then Some \<lparr>Major = major, Minor = minor, Patch = patch,
                              Pre = pre, Build = build\<rparr>
                   else None))))))
      | _ \<Rightarrow> None))"

definition ParseTolerant :: "string \<Rightarrow> semver option" where
  "ParseTolerant s0 =
     (let s = TrimPrefix (TrimSpace s0) ''v'';
          parts = SplitN s CHR ''.'' 3
      in if length parts < 3
         then (if \<exists>c \<in> set (last parts). c = CHR ''+'' \<or> c = CHR ''-'' then None
               else semver_Parse (Join (parts @ replicate (3 - length parts) ''0'') ''.''))
         else semver_Parse s)"

definition PRVersion_Compare :: "PRVersion \<Rightarrow> PRVersion \<Rightarrow> int" where
  "PRVersion_Compare v o' =
     (if IsNum v \<and> \<not> IsNum o' then -1
      else if \<not> IsNum v \<and> IsNum o' then 1
      else if IsNum v \<and> IsNum o' then
        (if VersionNum v = VersionNum o' then 0
         else if VersionNum v > VersionNum o' then 1 else -1)
      else (if VersionStr v = VersionStr o' then 0
            else if VersionStr v > VersionStr o' then 1 else -1))"

text \<open>The loop of \<^verbatim>\<open>Compare\<close> over the two prerelease lists, with its final length check.\<close>

fun compare_pre :: "PRVersion list \<Rightarrow> PRVersion list \<Rightarrow> int" where
  "compare_pre [] [] = 0"
| "compare_pre [] (q # qs) = -1"
| "compare_pre (p # ps) [] = 1"
| "compare_pre (p # ps) (q # qs) =
     (let comp = PRVersion_Compare p q
      in if comp = 0 then compare_pre ps qs else if comp = 1 then 1 else -1)"

definition semver_Compare :: "semver \<Rightarrow> semver \<Rightarrow> int" where
  "semver_Compare v o' =
     (if Major v \<noteq> Major o' then (if Major v > Major o' then 1 else -1)
      else if Minor v \<noteq> Minor o' then (if Minor v > Minor o' then 1 else -1)
      else if Patch v \<noteq> Patch o' then (if Patch v > Patch o' then 1 else -1)
      else if Pre v = [] \<and> Pre o' = [] then 0
      else if Pre v = [] \<and> Pre o' \<noteq> [] then 1
      else if Pre v \<noteq> [] \<and> Pre o' = [] then -1
      else compare_pre (Pre v) (Pre o'))"

definition GT :: "semver \<Rightarrow> semver \<Rightarrow> bool" where
  "GT v o' = (semver_Compare v o' = 1)"

definition GTE :: "semver \<Rightarrow> semver \<Rightarrow> bool" where
  "GTE v o' = (semver_Compare v o' \<ge> 0)"

section \<open>Regular expressions (package \<^verbatim>\<open>regexp\<close>)\<close>

text \<open>
  The syntax of the regular expressions the plugin pattern is built from. A character class
  is a predicate on characters. \<open>matches\<close> decides whether a whole string belongs to the
  language of an expression, by derivatives.
\<close>

datatype regex =
    Zero
  | Eps
  | Chars "char \<Rightarrow> bool"
  | Alt regex regex
  | Seq regex regex
  | Star regex

definition Plus :: "regex \<Rightarrow> regex" where
  "Plus r = Seq r (Star r)"

definition Opt :: "regex \<Rightarrow> regex" where
  "Opt r = Alt r Eps"

definition Lit :: "char \<Rightarrow> regex" where
  "Lit c = Chars (\<lambda>x. x = c)"

fun nullable :: "regex \<Rightarrow> bool" where
  "nullable Zero = False"
| "nullable Eps = True"
| "nullable (Chars P) = False"
| "nullable (Alt r s) = (nullable r \<or> nullable s)"
| "nullable (Seq r s) = (nullable r \<and> nullable s)"
| "nullable (Star r) = True"

fun deriv :: "char \<Rightarrow> regex \<Rightarrow> regex" where
  "deriv c Zero = Zero"
| "deriv c Eps = Zero"
| "deriv c (Chars P) = (if P c then Eps else Zero)"
| "deriv c (Alt r s) = Alt (deriv c r) (deriv c s)"
| "deriv c (Seq r s) =
     (if nullable r then Alt (Seq (deriv c r) s) (deriv c s) else Seq (deriv c r) s)"
| "deriv c (Star r) = Seq (deriv c r) (Star r)"

fun matches :: "regex \<Rightarrow> string \<Rightarrow> bool" where
  "matches r [] = nullable r"
| "matches r (c # cs) = matches (deriv c r) cs"

text \<open>The language of an expression, as the reference semantics of \<open>matches\<close>.\<close>

definition conc :: "string set \<Rightarrow> string set \<Rightarrow> string set" where
  "conc A B = {xs @ ys | xs ys. xs \<in> A \<and> ys \<in> B}"

inductive_set star :: "string set \<Rightarrow> string set" for A :: "string set" where
  star_nil: "[] \<in> star A"
| star_app: "xs \<in> A \<Longrightarrow> ys \<in> star A \<Longrightarrow> xs @ ys \<in> star A"

fun lang :: "regex \<Rightarrow> string set" where
  "lang Zero = {}"
| "lang Eps = {[]}"
| "lang (Chars P) = {[c] | c. P c}"
| "lang (Alt r s) = lang r \<union> lang s"
| "lang (Seq r s) = conc (lang r) (lang s)"
| "lang (Star r) = star (lang r)"

section \<open>The plugin directory pattern\<close>

text \<open>
  \<^verbatim>\<open>pluginRegexp\<close> is
  \<^verbatim>\<open>^(?P<Kind>[a-z]+)-(?P<Name>[a-zA-Z0-9-]*[a-zA-Z0-9])-v(?P<Version>[0-9]+.[0-9]+.[0-9]+(-[a-zA-Z0-9-_.]+)?)$\<close>.
  The dots of the version group are not escaped: each matches any character but a newline.
\<close>

definition any_char :: regex where
  "any_char = Chars (\<lambda>c. c \<noteq> CHR 0x0A)"

definition kindRe :: regex where
  "kindRe = Plus (Chars is_lower)"

definition nameRe :: regex where
  "nameRe = Seq (Star (Chars (\<lambda>c. is_alnum c \<or> c = CHR ''-''))) (Chars is_alnum)"

definition prerelease_class :: "char \<Rightarrow> bool" where
  "prerelease_class c = (is_alnum c \<or> c = CHR ''-'' \<or> c = CHR ''_'' \<or> c = CHR ''.'')"

definition versionRe :: regex where
  "versionRe =
     Seq (Plus (Chars is_digit)) (Seq any_char
    (Seq (Plus (Chars is_digit)) (Seq any_char
    (Seq (Plus (Chars is_digit))
         (Opt (Seq (Lit CHR ''-'') (Plus (Chars prerelease_class))))))))"

text \<open>All ways to cut a string in two, the longest first part first.\<close>

definition splits :: "string \<Rightarrow> (string \<times> string) list" where
  "splits s = map (\<lambda>i. (take i s, drop i s)) (rev [0..<Suc (length s)])"

text \<open>
  The match of \<^verbatim>\<open>NAME-vVERSION$\<close> against the rest of the string. The name's star is
  greedy, so the longest name that lets the rest match is the one captured.
\<close>

definition match_name_version :: "string \<Rightarrow> (string \<times> string) option" where
  "match_name_version r =
     map_option (\<lambda>(n, r2). (n, drop 2 r2))
       (find (\<lambda>(n, r2). matches nameRe n \<and> take 2 r2 = ''-v'' \<and> matches versionRe (drop 2 r2))
             (splits r))"

text \<open>
  \<^verbatim>\<open>pluginRegexp.FindStringSubmatch\<close>: the pattern is anchored at both ends, and the
  leftmost-first rule of the library picks the match a backtracking search finds first,
  every greedy repetition trying its longest extent first. The result is \<open>None\<close> for no
  match, and otherwise the three named groups (Kind, Name, Version); a match always has
  one entry per subexpression, and the two unnamed entries (the whole match and the
  prerelease group) are not read by \<^verbatim>\<open>tryPlugin\<close>.
\<close>

definition FindStringSubmatch :: "string \<Rightarrow> (string \<times> string \<times> string) option" where
  "FindStringSubmatch s =
     (case find (\<lambda>(k, r1). matches kindRe k \<and> take 1 r1 = ''-'' \<and>
                            match_name_version (drop 1 r1) \<noteq> None) (splits s) of
        None \<Rightarrow> None
      | Some (k, r1) \<Rightarrow>
          (case match_name_version (drop 1 r1) of
             None \<Rightarrow> None
           | Some (n, v) \<Rightarrow> Some (k, n, v)))"

section \<open>Plugin descriptors and names\<close>

text \<open>\<^verbatim>\<open>PluginKind\<close> is a string type with three named constants.\<close>

type_synonym PluginKind = string

definition AnalyzerPlugin :: PluginKind where
  "AnalyzerPlugin = ''analyzer''"

definition LanguagePlugin :: PluginKind where
  "LanguagePlugin = ''language''"

definition ResourcePlugin :: PluginKind where
  "ResourcePlugin = ''resource''"

definition IsPluginKind :: "string \<Rightarrow> bool" where
  "IsPluginKind k = (k = AnalyzerPlugin \<or> k = LanguagePlugin \<or> k = ResourcePlugin)"

text \<open>
  \<^verbatim>\<open>PluginInfo\<close>. Times are seconds since the epoch, and the zero \<^verbatim>\<open>time.Time\<close> is
  \<open>None\<close>. The version pointer is an option.
\<close>

type_synonym path = "string list"

record PluginInfo =
  Name :: string
  Path :: string
  Kind :: PluginKind
  Version :: "semver option"
  Size :: int
  InstallTime :: "int option"
  LastUsedTime :: "int option"

definition Dir :: "PluginInfo \<Rightarrow> string" where
  "Dir info =
     (let dir = Kind info @ ''-'' @ Name info
      in (case Version info of
            None \<Rightarrow> dir
          | Some v \<Rightarrow> dir @ ''-v'' @ semver_String v))"

definition FilePrefix :: "PluginInfo \<Rightarrow> string" where
  "FilePrefix info = ''pulumi-'' @ Kind info @ ''-'' @ Name info"

text \<open>\<^verbatim>\<open>runtime.GOOS\<close> is a parameter.\<close>

definition FileSuffix :: "string \<Rightarrow> PluginInfo \<Rightarrow> string" where
  "FileSuffix goos info = (if goos = ''windows'' then ''.exe'' else [])"

definition File :: "string \<Rightarrow> PluginInfo \<Rightarrow> string" where
  "File goos info = FilePrefix info @ FileSuffix goos info"

text \<open>
  The directory entry \<^verbatim>\<open>os.FileInfo\<close> as far as the code reads it.
\<close>

record FileInfo =
  fi_Name :: string
  fi_IsDir :: bool
  fi_Size :: int
  fi_BirthTime :: "int option"
  fi_AccessTime :: int

text \<open>
  \<^verbatim>\<open>tryPlugin\<close>: \<open>None\<close> is the result with \<^verbatim>\<open>ok = false\<close>. The loop over the
  subexpression names assigns \<open>kind\<close> only for a valid kind, \<open>name\<close> always, and
  \<open>version\<close> only when the version parses; then anything missing rejects the entry.
\<close>

definition tryPlugin :: "FileInfo \<Rightarrow> (PluginKind \<times> string \<times> semver) option" where
  "tryPlugin file =
     (if \<not> fi_IsDir file then None
      else (case FindStringSubmatch (fi_Name file) of
        None \<Rightarrow> None
      | Some (k, n, v) \<Rightarrow>
          (let kind = (if IsPluginKind k then k else []);
               name = n;
               version = ParseTolerant v
           in if kind = [] \<or> name = [] \<or> version = None then None
              else Some (kind, name, the version))))"

section \<open>The file system\<close>

text \<open>
  The operations run against the file system, which is modelled as a tree: a regular file
  with its bytes, a directory with its entries, or a directory that cannot be read or
  searched (\<open>Denied\<close>). Every node carries its birth time, when the host file system has
  one, and its access time. A path is the list of its components from the root.
\<close>

type_synonym ftimes = "int option \<times> int"

datatype fnode =
    FileN ftimes string
  | DirN ftimes "(string \<times> fnode) list"
  | Denied ftimes

datatype errno = ENOENT | ENOTDIR | EACCES | EISDIR

datatype error =
    PathError string path errno
  | NoUser
  | GzipError
  | TarError
  | UnexpectedFileType string char
  | Wrapped string error

text \<open>\<^verbatim>\<open>os.IsNotExist\<close> looks at the error itself, not through a wrapper.\<close>

fun IsNotExist :: "error \<Rightarrow> bool" where
  "IsNotExist (PathError opn p e) = (e = ENOENT)"
| "IsNotExist err = False"

definition path_string :: "path \<Rightarrow> string" where
  "path_string p = concat (map (\<lambda>c. ''/'' @ c) p)"

fun resolve :: "fnode \<Rightarrow> path \<Rightarrow> errno + fnode" where
  "resolve n [] = Inr n"
| "resolve (DirN t es) (c # cs) =
     (case map_of es c of None \<Rightarrow> Inl ENOENT | Some m \<Rightarrow> resolve m cs)"
| "resolve (FileN t d) (c # cs) = Inl ENOTDIR"
| "resolve (Denied t) (c # cs) = Inl EACCES"

fun node_info :: "string \<Rightarrow> fnode \<Rightarrow> FileInfo" where
  "node_info name (FileN t d) =
     \<lparr>fi_Name = name, fi_IsDir = False, fi_Size = int (length d),
      fi_BirthTime = fst t, fi_AccessTime = snd t\<rparr>"
| "node_info name (DirN t es) =
     \<lparr>fi_Name = name, fi_IsDir = True, fi_Size = 0,
      fi_BirthTime = fst t, fi_AccessTime = snd t\<rparr>"
| "node_info name (Denied t) =
     \<lparr>fi_Name = name, fi_IsDir = True, fi_Size = 0,
      fi_BirthTime = fst t, fi_AccessTime = snd t\<rparr>"

text \<open>\<^verbatim>\<open>os.Stat\<close>.\<close>

definition Stat :: "fnode \<Rightarrow> path \<Rightarrow> error + FileInfo" where
  "Stat fs p =
     (case resolve fs p of
        Inl e \<Rightarrow> Inl (PathError ''stat'' p e)
      | Inr n \<Rightarrow> Inr (node_info (if p = [] then ''/'' else last p) n))"

text \<open>
  A directory entry's name is never empty, \<^verbatim>\<open>.\<close> or \<^verbatim>\<open>..\<close>, and has no separator.
\<close>

definition valid_name :: "string \<Rightarrow> bool" where
  "valid_name n = (n \<noteq> [] \<and> n \<noteq> ''.'' \<and> n \<noteq> ''..'' \<and> CHR ''/'' \<notin> set n)"

text \<open>\<^verbatim>\<open>ioutil.ReadDir\<close>: the entries of a directory, sorted by file name.\<close>

definition ReadDir :: "fnode \<Rightarrow> path \<Rightarrow> error + FileInfo list" where
  "ReadDir fs p =
     (case resolve fs p of
        Inl e \<Rightarrow> Inl (PathError ''open'' p e)
      | Inr (FileN t d) \<Rightarrow> Inl (PathError ''readdirent'' p ENOTDIR)
      | Inr (Denied t) \<Rightarrow> Inl (PathError ''open'' p EACCES)
      | Inr (DirN t es) \<Rightarrow>
          Inr (map (\<lambda>n. node_info n (the (map_of es n)))
                   (sort (remdups (filter valid_name (map fst es))))))"

text \<open>
  \<^verbatim>\<open>filepath.Join(dir, name)\<close> for a clean absolute \<open>dir\<close>: the components of \<open>name\<close> are
  appended, and the result is cleaned (empty and \<^verbatim>\<open>.\<close> components go, \<^verbatim>\<open>..\<close> steps up).
\<close>

fun clean_onto :: "path \<Rightarrow> string list \<Rightarrow> path" where
  "clean_onto p [] = p"
| "clean_onto p (c # cs) =
     (if c = [] \<or> c = ''.'' then clean_onto p cs
      else if c = ''..'' then clean_onto (butlast p) cs
      else clean_onto (p @ [c]) cs)"

definition filepath_Join :: "path \<Rightarrow> string \<Rightarrow> path" where
  "filepath_Join dir name = clean_onto dir (Split name CHR ''/'')"

text \<open>The size of the subtree below a node, for the termination of \<open>getPluginSize\<close>.\<close>

fun weight :: "fnode \<Rightarrow> nat" where
  "weight (FileN t d) = 1"
| "weight (Denied t) = 1"
| "weight (DirN t es) = Suc (sum_list (map (\<lambda>e. weight (snd e)) es))"

definition path_weight :: "fnode \<Rightarrow> path \<Rightarrow> nat" where
  "path_weight fs p = (case resolve fs p of Inl e \<Rightarrow> 0 | Inr n \<Rightarrow> weight n)"

lemma Split_no_sep: "sep \<notin> set s \<Longrightarrow> Split s sep = [s]"
  by (induction s) auto

lemma filepath_Join_valid: "valid_name n \<Longrightarrow> filepath_Join dir n = dir @ [n]"
  by (simp add: filepath_Join_def valid_name_def Split_no_sep)

lemma weight_pos: "0 < weight n"
  by (cases n) auto

lemma map_of_weight:
  "map_of es c = Some m \<Longrightarrow> weight m \<le> sum_list (map (\<lambda>e. weight (snd e)) es)"
  by (induction es) (auto split: if_splits)

lemma resolve_snoc:
  "resolve fs (p @ [c]) = (case resolve fs p of Inl e \<Rightarrow> Inl e | Inr n \<Rightarrow> resolve n [c])"
  by (induction fs p rule: resolve.induct) (auto split: option.splits)

lemma resolve_child_weight: "resolve n [c] = Inr m \<Longrightarrow> weight m < weight n"
  by (cases n) (auto split: option.splits dest: map_of_weight simp: less_Suc_eq_le)

lemma path_weight_child:
  "resolve fs p = Inr n \<Longrightarrow> path_weight fs (p @ [c]) < path_weight fs p"
  unfolding path_weight_def resolve_snoc
  by (auto split: sum.splits simp: weight_pos dest: resolve_child_weight)

lemma node_info_name [simp]: "fi_Name (node_info n m) = n"
  by (cases m) auto

lemma ReadDir_names:
  "ReadDir fs p = Inr files \<Longrightarrow> fi \<in> set files \<Longrightarrow>
   valid_name (fi_Name fi) \<and> (\<exists>n. resolve fs p = Inr n)"
  by (auto simp: ReadDir_def split: sum.splits fnode.splits)

section \<open>Metadata probing\<close>

text \<open>
  The loop of \<^verbatim>\<open>getPluginSize\<close> over the entries of a directory: \<open>f\<close> is what one entry
  adds to the size, and the first error ends the loop.
\<close>

fun sum_sizes :: "(FileInfo \<Rightarrow> error + int) \<Rightarrow> FileInfo list \<Rightarrow> int \<Rightarrow> error + int" where
  "sum_sizes f [] sz = Inr sz"
| "sum_sizes f (file # files) sz =
     (case f file of Inl err \<Rightarrow> Inl err | Inr n \<Rightarrow> sum_sizes f files (sz + n))"

lemma sum_sizes_cong [fundef_cong]:
  "files = files' \<Longrightarrow> sz = sz' \<Longrightarrow> (\<And>fi. fi \<in> set files' \<Longrightarrow> f fi = g fi)
   \<Longrightarrow> sum_sizes f files sz = sum_sizes g files' sz'"
  by (induction files' arbitrary: files sz sz') (auto split: sum.splits)

function getPluginSize :: "fnode \<Rightarrow> path \<Rightarrow> error + int" where
  "getPluginSize fs dir =
     (case ReadDir fs dir of
        Inl err \<Rightarrow> (if IsNotExist err then Inr 0 else Inl err)
      | Inr files \<Rightarrow>
          sum_sizes (\<lambda>file. if fi_IsDir file
                            then getPluginSize fs (filepath_Join dir (fi_Name file))
                            else Inr (fi_Size file)) files 0)"
  by pat_completeness auto
termination
proof (relation "measure (\<lambda>(fs, dir). path_weight fs dir)")
  fix fs dir files fi
  assume "ReadDir fs dir = Inr files" "fi \<in> set files" "fi_IsDir fi"
  then show "((fs, filepath_Join dir (fi_Name fi)), fs, dir)
             \<in> measure (\<lambda>(fs, dir). path_weight fs dir)"
    using ReadDir_names[of fs dir files fi]
    by (auto simp: filepath_Join_valid path_weight_child)
qed simp

declare getPluginSize.simps [simp del]

text \<open>
  \<^verbatim>\<open>SetFileMetadata\<close> updates the record it is called on; the model returns the updated
  record, or the error (and then the record is unchanged).
\<close>

definition SetFileMetadata :: "fnode \<Rightarrow> PluginInfo \<Rightarrow> path \<Rightarrow> error + PluginInfo" where
  "SetFileMetadata fs info p =
     (case Stat fs p of
        Inl err \<Rightarrow> Inl err
      | Inr file \<Rightarrow>
          (case getPluginSize fs p of
             Inl err \<Rightarrow> Inl (Wrapped (''getting plugin dir '' @ path_string p @ '' size'') err)
           | Inr sz \<Rightarrow>
               Inr (info\<lparr>Size := sz,
                          InstallTime := (case fi_BirthTime file of
                                            Some b \<Rightarrow> Some b
                                          | None \<Rightarrow> InstallTime info),
                          LastUsedTime := Some (fi_AccessTime file)\<rparr>)))"

section \<open>The plugin cache\<close>

text \<open>
  What the operations read from their surroundings: the current user's home directory
  (\<open>None\<close> when \<^verbatim>\<open>user.Current\<close> fails), the two path constants of the workspace package
  (\<^verbatim>\<open>BookkeepingDir\<close> and \<^verbatim>\<open>PluginDir\<close>, which are declared outside the plugin file),
  the operating system's name, the executable search path as the function
  \<^verbatim>\<open>exec.LookPath\<close> computes, and the file system.
\<close>

record world =
  HomeDir :: "path option"
  BookkeepingDir :: string
  PluginDir :: string
  GOOS :: string
  LookPath :: "string \<Rightarrow> path option"
  root :: fnode

definition GetPluginDir :: "world \<Rightarrow> error + path" where
  "GetPluginDir w =
     (case HomeDir w of
        None \<Rightarrow> Inl (Wrapped ''getting user home directory'' NoUser)
      | Some home \<Rightarrow> Inr (filepath_Join (filepath_Join home (BookkeepingDir w)) (PluginDir w)))"

definition DirPath :: "world \<Rightarrow> PluginInfo \<Rightarrow> error + path" where
  "DirPath w info =
     (case GetPluginDir w of
        Inl err \<Rightarrow> Inl err
      | Inr dir \<Rightarrow> Inr (filepath_Join dir (Dir info)))"

definition FilePath :: "world \<Rightarrow> PluginInfo \<Rightarrow> error + path" where
  "FilePath w info =
     (case DirPath w info of
        Inl err \<Rightarrow> Inl err
      | Inr dir \<Rightarrow> Inr (filepath_Join dir (File (GOOS w) info)))"

definition HasPlugin :: "world \<Rightarrow> PluginInfo \<Rightarrow> bool" where
  "HasPlugin w plug =
     (case DirPath w plug of
        Inr dir \<Rightarrow> (case Stat (root w) dir of Inr fi \<Rightarrow> True | Inl err \<Rightarrow> False)
      | Inl err \<Rightarrow> False)"

text \<open>The loop of \<^verbatim>\<open>GetPlugins\<close> over the entries of the plugin directory.\<close>

fun plugins_loop :: "fnode \<Rightarrow> path \<Rightarrow> FileInfo list \<Rightarrow> PluginInfo list
    \<Rightarrow> error + PluginInfo list" where
  "plugins_loop fs dir [] plugins = Inr plugins"
| "plugins_loop fs dir (file # files) plugins =
     (case tryPlugin file of
        None \<Rightarrow> plugins_loop fs dir files plugins
      | Some (kind, name, version) \<Rightarrow>
          (case SetFileMetadata fs
                  \<lparr>Name = name, Path = [], Kind = kind, Version = Some version, Size = 0,
                   InstallTime = None, LastUsedTime = None\<rparr>
                  (filepath_Join dir (fi_Name file)) of
             Inl err \<Rightarrow> Inl err
           | Inr plugin \<Rightarrow> plugins_loop fs dir files (plugins @ [plugin])))"

definition GetPlugins :: "world \<Rightarrow> error + PluginInfo list" where
  "GetPlugins w =
     (case GetPluginDir w of
        Inl err \<Rightarrow> Inl err
      | Inr dir \<Rightarrow>
          (case ReadDir (root w) dir of
             Inl err \<Rightarrow> (if IsNotExist err then Inr [] else Inl err)
           | Inr files \<Rightarrow> plugins_loop (root w) dir files []))"

text \<open>The loop of \<^verbatim>\<open>HasPluginGTE\<close>.\<close>

definition gte_match :: "PluginInfo \<Rightarrow> PluginInfo \<Rightarrow> bool" where
  "gte_match plug p =
     (Name p = Name plug \<and> Kind p = Kind plug \<and>
      (case (Version p, Version plug) of
         (Some pv, Some v) \<Rightarrow> GTE pv v
       | _ \<Rightarrow> False))"

definition HasPluginGTE :: "world \<Rightarrow> PluginInfo \<Rightarrow> error + bool" where
  "HasPluginGTE w plug =
     (if HasPlugin w plug then Inr True
      else (case GetPlugins w of
              Inl err \<Rightarrow> Inl err
            | Inr plugs \<Rightarrow> Inr (list_ex (gte_match plug) plugs)))"

section \<open>Resolution\<close>

text \<open>
  \<^verbatim>\<open>GetPluginPath\<close> keeps a pointer \<open>match\<close> to the selected record, and every assignment
  to it is \<^verbatim>\<open>&plugin\<close>, the address of the variable of the \<^verbatim>\<open>range\<close> loop. A \<^verbatim>\<open>range\<close>
  loop has one variable for all its iterations, and each iteration copies the next
  element into it. The store maps an address to the record held there, and \<open>plugin_var\<close>
  is the address of the loop variable.
\<close>

type_synonym addr = nat

record resolve_state =
  heap :: "addr \<Rightarrow> PluginInfo option"
  match :: "addr option"

definition plugin_var :: addr where
  "plugin_var = 0"

definition deref :: "(addr \<Rightarrow> PluginInfo option) \<Rightarrow> addr option \<Rightarrow> PluginInfo option" where
  "deref h a = (case a of None \<Rightarrow> None | Some x \<Rightarrow> h x)"

text \<open>
  One iteration: the element is copied into the loop variable, and the three arms are
  tried in the order of the source. \<open>match.Version\<close> is read through the pointer.
\<close>

definition resolve_step ::
  "PluginKind \<Rightarrow> string \<Rightarrow> semver option \<Rightarrow> resolve_state \<Rightarrow> PluginInfo \<Rightarrow> resolve_state" where
  "resolve_step kind name version st elem =
     (let h = (heap st)(plugin_var := Some elem);
          plugin = the (h plugin_var)
      in if Kind plugin = kind \<and> Name plugin = name then
           (let m = (if match st = None \<and> version = None then Some plugin_var
                     else if match st \<noteq> None \<and>
                             (Version (the (deref h (match st))) = None \<or>
                              (Version plugin \<noteq> None \<and>
                               GT (the (Version plugin))
                                  (the (Version (the (deref h (match st)))))))
                       then Some plugin_var
                     else if version \<noteq> None \<and> Version plugin \<noteq> None \<and>
                             GTE (the (Version plugin)) (the version)
                       then Some plugin_var
                     else None)
            in \<lparr>heap = h, match = (if m \<noteq> None then m else match st)\<rparr>)
         else \<lparr>heap = h, match = match st\<rparr>)"

definition resolve_init :: resolve_state where
  "resolve_init = \<lparr>heap = (\<lambda>a. None), match = None\<rparr>"

text \<open>
  The result is the pair (directory, file path), the empty path standing for the empty
  string.
\<close>

definition GetPluginPath ::
  "world \<Rightarrow> PluginKind \<Rightarrow> string \<Rightarrow> semver option \<Rightarrow> error + (path \<times> path)" where
  "GetPluginPath w kind name version =
     (let filename = FilePrefix \<lparr>Name = name, Path = [], Kind = kind, Version = version,
                                 Size = 0, InstallTime = None, LastUsedTime = None\<rparr>
      in case LookPath w filename of
           Some p \<Rightarrow> Inr ([], p)
         | None \<Rightarrow>
             (case GetPlugins w of
                Inl err \<Rightarrow> Inl (Wrapped ''loading plugin list'' err)
              | Inr plugins \<Rightarrow>
                  (let st = foldl (resolve_step kind name version) resolve_init plugins
                   in case match st of
                        None \<Rightarrow> Inr ([], [])
                      | Some a \<Rightarrow>
                          (let mt = the (heap st a)
                           in case DirPath w mt of
                                Inl err \<Rightarrow> Inl err
                              | Inr matchDir \<Rightarrow>
                                  (case FilePath w mt of
                                     Inl err \<Rightarrow> Inl err
                                   | Inr matchPath \<Rightarrow> Inr (matchDir, matchPath))))))"

section \<open>Installation\<close>

text \<open>
  A tar header as far as \<^verbatim>\<open>Install\<close> reads it; the type flag is a byte. An archive is a
  stream that is not gzip data, or a list of items followed by the end of the archive. An
  item is an entry (its header, its bytes, and whether reading the bytes ends in an
  error) or a point where the reader fails.
\<close>

record Header =
  h_Name :: string
  h_Typeflag :: char
  h_Mode :: int

definition TypeReg :: char where
  "TypeReg = CHR ''0''"

definition TypeDir :: char where
  "TypeDir = CHR ''5''"

datatype tar_item = Entry Header string bool | Corrupt

datatype tarball = NotGzip | Gzip "tar_item list"

text \<open>\<^verbatim>\<open>os.MkdirAll\<close>: new directories get the times \<open>now\<close>.\<close>

fun MkdirAll_node :: "ftimes \<Rightarrow> fnode \<Rightarrow> path \<Rightarrow> errno + fnode" where
  "MkdirAll_node now (FileN t d) cs = Inl ENOTDIR"
| "MkdirAll_node now (Denied t) [] = Inr (Denied t)"
| "MkdirAll_node now (Denied t) (c # cs) = Inl EACCES"
| "MkdirAll_node now (DirN t es) [] = Inr (DirN t es)"
| "MkdirAll_node now (DirN t es) (c # cs) =
     (case map_of es c of
        None \<Rightarrow>
          (case MkdirAll_node now (DirN now []) cs of
             Inl e \<Rightarrow> Inl e
           | Inr m \<Rightarrow> Inr (DirN t (es @ [(c, m)])))
      | Some n \<Rightarrow>
          (case MkdirAll_node now n cs of
             Inl e \<Rightarrow> Inl e
           | Inr m \<Rightarrow> Inr (DirN t (AList.update c m es))))"

definition MkdirAll :: "ftimes \<Rightarrow> fnode \<Rightarrow> path \<Rightarrow> error + fnode" where
  "MkdirAll now fs p =
     (case MkdirAll_node now fs p of
        Inl e \<Rightarrow> Inl (PathError ''mkdir'' p e)
      | Inr fs' \<Rightarrow> Inr fs')"

text \<open>
  \<^verbatim>\<open>os.OpenFile(path, O_CREATE|O_RDWR, mode)\<close> followed by the copy of the entry's bytes:
  the file is created when it is missing, and an existing file is written from its start
  without being truncated.
\<close>

fun write_node :: "ftimes \<Rightarrow> fnode \<Rightarrow> path \<Rightarrow> string \<Rightarrow> errno + fnode" where
  "write_node now (FileN t old) [] d = Inr (FileN t (d @ drop (length d) old))"
| "write_node now (FileN t old) (c # cs) d = Inl ENOTDIR"
| "write_node now (Denied t) [] d = Inl EISDIR"
| "write_node now (Denied t) (c # cs) d = Inl EACCES"
| "write_node now (DirN t es) [] d = Inl EISDIR"
| "write_node now (DirN t es) (c # cs) d =
     (case map_of es c of
        None \<Rightarrow> (if cs = [] then Inr (DirN t (es @ [(c, FileN now d)])) else Inl ENOENT)
      | Some n \<Rightarrow>
          (case write_node now n cs d of
             Inl e \<Rightarrow> Inl e
           | Inr m \<Rightarrow> Inr (DirN t (AList.update c m es))))"

definition write_file :: "ftimes \<Rightarrow> fnode \<Rightarrow> path \<Rightarrow> string \<Rightarrow> error + fnode" where
  "write_file now fs p d =
     (case write_node now fs p d of
        Inl e \<Rightarrow> Inl (PathError ''open'' p e)
      | Inr fs' \<Rightarrow> Inr fs')"

text \<open>
  The loop of \<^verbatim>\<open>Install\<close> over the archive. It returns the file system as the loop
  leaves it, and the error when there is one.
\<close>

fun untar :: "ftimes \<Rightarrow> path \<Rightarrow> fnode \<Rightarrow> tar_item list \<Rightarrow> fnode \<times> error option" where
  "untar now pluginDir fs [] = (fs, None)"
| "untar now pluginDir fs (Corrupt # items) = (fs, Some (Wrapped ''untarring'' TarError))"
| "untar now pluginDir fs (Entry header d copy_fails # items) =
     (let p = filepath_Join pluginDir (h_Name header)
      in if h_Typeflag header = TypeDir then
           (case Stat fs p of
              Inr fi \<Rightarrow> untar now pluginDir fs items
            | Inl err0 \<Rightarrow>
                (case MkdirAll now fs p of
                   Inl err \<Rightarrow> (fs, Some (Wrapped (''untarring dir '' @ path_string p) err))
                 | Inr fs' \<Rightarrow> untar now pluginDir fs' items))
         else if h_Typeflag header = TypeReg then
           (case write_file now fs p d of
              Inl err \<Rightarrow> (fs, Some (Wrapped (''opening file '' @ path_string p @ '' for untar'') err))
            | Inr fs' \<Rightarrow>
                (if copy_fails
                 then (fs', Some (Wrapped (''untarring file '' @ path_string p) TarError))
                 else untar now pluginDir fs' items))
         else (fs, Some (UnexpectedFileType (h_Name header) (h_Typeflag header))))"

definition Install :: "ftimes \<Rightarrow> world \<Rightarrow> PluginInfo \<Rightarrow> tarball \<Rightarrow> fnode \<times> error option" where
  "Install now w info tb =
     (case DirPath w info of
        Inl err \<Rightarrow> (root w, Some err)
      | Inr pluginDir \<Rightarrow>
          (case MkdirAll now (root w) pluginDir of
             Inl err \<Rightarrow>
               (root w, Some (Wrapped (''creating plugin directory '' @ path_string pluginDir) err))
           | Inr fs \<Rightarrow>
               (case tb of
                  NotGzip \<Rightarrow> (fs, Some (Wrapped ''unzipping'' GzipError))
                | Gzip items \<Rightarrow> untar now pluginDir fs items)))"

section \<open>Example worlds\<close>

text \<open>
  A home directory \<^verbatim>\<open>/home/u\<close> whose plugin directory \<^verbatim>\<open>/home/u/.pulumi/plugins\<close> holds
  the given entries, on a host with nothing on the executable search path.
\<close>

definition example_root :: "(string \<times> fnode) list \<Rightarrow> fnode" where
  "example_root es =
     DirN (None, 0) [(''home'', DirN (None, 0) [(''u'', DirN (None, 0)
       [(''.pulumi'', DirN (None, 0) [(''plugins'', DirN (None, 0) es)])])])]"

definition example_world :: "(string \<times> fnode) list \<Rightarrow> world" where
  "example_world es =
     \<lparr>HomeDir = Some [''home'', ''u''], BookkeepingDir = ''.pulumi'', PluginDir = ''plugins'',
      GOOS = ''linux'', LookPath = (\<lambda>s. None), root = example_root es\<rparr>"

definition example_plugins :: path where
  "example_plugins = [''home'', ''u'', ''.pulumi'', ''plugins'']"

definition ver :: "64 word \<Rightarrow> 64 word \<Rightarrow> 64 word \<Rightarrow> semver" where
  "ver a b c = \<lparr>Major = a, Minor = b, Patch = c, Pre = [], Build = []\<rparr>"

definition descriptor :: "PluginKind \<Rightarrow> string \<Rightarrow> semver option \<Rightarrow> PluginInfo" where
  "descriptor kind name version =
     \<lparr>Name = name, Path = [], Kind = kind, Version = version, Size = 0,
      InstallTime = None, LastUsedTime = None\<rparr>"

section \<open>Resolution: the claims\<close>

text \<open>
  Claim C1. With a minimum version requested and no override on the search path,
  \<^verbatim>\<open>GetPluginPath\<close> should return a path whose version is at least the minimum whenever a
  scanned record of that kind and name qualifies. The code does not: \<open>match\<close> points at
  the loop variable, so after the loop it denotes the last record of the scan, whatever
  was selected. With versions 10.0.0 and 2.0.0 of the resource plugin \<open>aws\<close> installed
  (scanned in the order of their directory names, 10.0.0 first) and a minimum of 5.0.0,
  version 10.0.0 qualifies and the call returns the directory of version 2.0.0.
\<close>

theorem GetPluginPath_returns_last_scanned:
  "GetPluginPath
     (example_world [(''resource-aws-v2.0.0'', DirN (None, 0) []),
                     (''resource-aws-v10.0.0'', DirN (None, 0) [])])
     ResourcePlugin ''aws'' (Some (ver 5 0 0))
   = Inr (example_plugins @ [''resource-aws-v2.0.0''],
          example_plugins @ [''resource-aws-v2.0.0'', ''pulumi-resource-aws''])"
  by code_simp

text \<open>
  Claim C3. When the unversioned executable name \<^verbatim>\<open>pulumi-<kind>-<name>\<close> is found on the
  executable search path, \<^verbatim>\<open>GetPluginPath\<close> returns that path with an empty directory and
  no error, whatever version is requested and whatever the home directory and the file
  system (and so the cache) hold.
\<close>

theorem GetPluginPath_override:
  "LookPath w (''pulumi-'' @ kind @ ''-'' @ name) = Some p \<Longrightarrow>
   GetPluginPath (w\<lparr>HomeDir := h, root := fs\<rparr>) kind name version = Inr ([], p)"
  by (simp add: GetPluginPath_def FilePrefix_def)

theorem GetPluginPath_override_witness:
  "GetPluginPath
     ((example_world [])
        \<lparr>LookPath := (\<lambda>s. if s = ''pulumi-resource-aws''
                            then Some [''usr'', ''bin'', ''pulumi-resource-aws''] else None),
         HomeDir := None,
         root := example_root [(''resource-aws-v1.0.0'', DirN (None, 0) [])]\<rparr>)
     ''resource'' ''aws'' (Some (ver 9 9 9))
   = Inr ([], [''usr'', ''bin'', ''pulumi-resource-aws''])"
proof -
  let ?w = "(example_world [])
        \<lparr>LookPath := (\<lambda>s. if s = ''pulumi-resource-aws''
                            then Some [''usr'', ''bin'', ''pulumi-resource-aws''] else None)\<rparr>"
  have "LookPath ?w (''pulumi-'' @ ''resource'' @ ''-'' @ ''aws'')
        = Some [''usr'', ''bin'', ''pulumi-resource-aws'']"
    by simp
  from GetPluginPath_override [OF this] show ?thesis
    by simp
qed

section \<open>Presence checks: the claims\<close>

text \<open>
  Claim C5, as the code has it. \<^verbatim>\<open>HasPlugin\<close> is true exactly when the plugin directory
  can be resolved and something exists at the path of the descriptor's directory name
  below it: a directory or any other kind of entry. It reads nothing else.
\<close>

theorem HasPlugin_iff_entry_exists:
  "HasPlugin w d \<longleftrightarrow>
   (\<exists>dir n. GetPluginDir w = Inr dir \<and> resolve (root w) (filepath_Join dir (Dir d)) = Inr n)"
  by (auto simp: HasPlugin_def DirPath_def Stat_def split: sum.splits)

text \<open>
  Claim C5 as stated fails: a regular file named like the plugin directory makes
  \<^verbatim>\<open>HasPlugin\<close> true although no such directory exists.
\<close>

theorem HasPlugin_true_for_regular_file:
  "HasPlugin (example_world [(''resource-aws-v1.0.0'', FileN (None, 0) ''x'')])
             (descriptor ResourcePlugin ''aws'' (Some (ver 1 0 0)))
   \<and> Stat (root (example_world [(''resource-aws-v1.0.0'', FileN (None, 0) ''x'')]))
           (example_plugins @ [''resource-aws-v1.0.0''])
     = Inr \<lparr>fi_Name = ''resource-aws-v1.0.0'', fi_IsDir = False, fi_Size = 1,
            fi_BirthTime = None, fi_AccessTime = 0\<rparr>"
  by code_simp

text \<open>
  Claim C6. For a descriptor with a version, \<^verbatim>\<open>HasPluginGTE\<close> answers true exactly when
  \<^verbatim>\<open>HasPlugin\<close> is true, or the scan succeeds and returns a record of the same name and
  kind that has a version greater than or equal to the descriptor's. A record without a
  version never counts.
\<close>

theorem HasPluginGTE_iff:
  assumes "Version d = Some v"
  shows "HasPluginGTE w d = Inr True \<longleftrightarrow>
     HasPlugin w d \<or>
     (\<exists>ps p pv. GetPlugins w = Inr ps \<and> p \<in> set ps \<and> Name p = Name d \<and> Kind p = Kind d \<and>
        Version p = Some pv \<and> GTE pv v)"
  using assms
  by (auto simp: HasPluginGTE_def gte_match_def list_ex_iff split: sum.splits option.splits)

theorem HasPluginGTE_iff_witness:
  "HasPluginGTE (example_world [(''resource-aws-v2.5.0'', DirN (None, 0) [])])
                (descriptor ResourcePlugin ''aws'' (Some (ver 2 0 0))) = Inr True
   \<and> \<not> HasPlugin (example_world [(''resource-aws-v2.5.0'', DirN (None, 0) [])])
                  (descriptor ResourcePlugin ''aws'' (Some (ver 2 0 0)))
   \<and> (\<exists>ps p pv. GetPlugins (example_world [(''resource-aws-v2.5.0'', DirN (None, 0) [])]) = Inr ps
         \<and> p \<in> set ps \<and> Name p = ''aws'' \<and> Kind p = ResourcePlugin
         \<and> Version p = Some pv \<and> GTE pv (ver 2 0 0))"
proof -
  let ?w = "example_world [(''resource-aws-v2.5.0'', DirN (None, 0) [])]"
  let ?d = "descriptor ResourcePlugin ''aws'' (Some (ver 2 0 0))"
  have v: "Version ?d = Some (ver 2 0 0)"
    by (simp add: descriptor_def)
  have t: "HasPluginGTE ?w ?d = Inr True"
    by code_simp
  have n: "\<not> HasPlugin ?w ?d"
    by code_simp
  from HasPluginGTE_iff [OF v, of ?w] t n show ?thesis
    by (simp add: descriptor_def)
qed

section \<open>Metadata probing: the claims\<close>

text \<open>
  Claim C8, as the code has it. For a path that does not exist, \<^verbatim>\<open>getPluginSize\<close> reports
  the size 0 and no error; \<^verbatim>\<open>SetFileMetadata\<close> calls \<^verbatim>\<open>os.Stat\<close> first and returns its
  error, so attaching metadata to a directory that is gone fails.
\<close>

theorem probe_of_missing_path:
  assumes "resolve fs p = Inl ENOENT"
  shows "getPluginSize fs p = Inr 0 \<and>
         SetFileMetadata fs info p = Inl (PathError ''stat'' p ENOENT)"
  using assms
  by (simp add: getPluginSize.simps ReadDir_def SetFileMetadata_def Stat_def)

theorem probe_of_missing_path_witness:
  "resolve (example_root []) (example_plugins @ [''resource-aws-v1.0.0'']) = Inl ENOENT
   \<and> getPluginSize (example_root []) (example_plugins @ [''resource-aws-v1.0.0'']) = Inr 0"
proof -
  have h: "resolve (example_root []) (example_plugins @ [''resource-aws-v1.0.0'']) = Inl ENOENT"
    by code_simp
  show ?thesis
    using h probe_of_missing_path [OF h] by simp
qed

text \<open>
  Claim C8 as stated fails: metadata probing of a plugin directory that does not exist
  returns an error instead of a record of size 0.
\<close>

theorem SetFileMetadata_fails_on_missing_directory:
  "SetFileMetadata (example_root []) (descriptor ResourcePlugin ''aws'' (Some (ver 1 0 0)))
     (example_plugins @ [''resource-aws-v1.0.0''])
   = Inl (PathError ''stat'' (example_plugins @ [''resource-aws-v1.0.0'']) ENOENT)"
  by code_simp

section \<open>Installation: the claims\<close>

lemma untar_append:
  "untar now dir fs (pre @ rest) =
     (case untar now dir fs pre of
        (fs1, None) \<Rightarrow> untar now dir fs1 rest
      | (fs1, Some err) \<Rightarrow> (fs1, Some err))"
  by (induction now dir fs pre rule: untar.induct)
     (auto simp: Let_def split: sum.splits prod.splits option.splits)

text \<open>
  Claim C7. When the plugin directory has been created and the entries before it have
  been extracted without error, an entry whose type is neither directory nor regular file
  ends \<^verbatim>\<open>Install\<close> with the unsupported-entry error that names the entry and its type. The
  file system is left as the earlier entries made it: nothing is rolled back, and the
  entries after it are not read.
\<close>

theorem Install_unsupported_entry:
  assumes "DirPath w info = Inr dir"
    and "MkdirAll now (root w) dir = Inr fs0"
    and "untar now dir fs0 pre = (fs1, None)"
    and "h_Typeflag h \<noteq> TypeDir" and "h_Typeflag h \<noteq> TypeReg"
  shows "Install now w info (Gzip (pre @ Entry h d cf # post))
         = (fs1, Some (UnexpectedFileType (h_Name h) (h_Typeflag h)))"
  using assms by (simp add: Install_def untar_append)

text \<open>
  An archive with a directory, a file in it, a symbolic link (type \<^verbatim>\<open>2\<close>) and one more
  file: the link ends the installation, and the file written before it is on disk.
\<close>

theorem Install_unsupported_entry_witness:
  "Install (None, 7) (example_world []) (descriptor ResourcePlugin ''aws'' (Some (ver 1 0 0)))
     (Gzip ([Entry \<lparr>h_Name = ''bin'', h_Typeflag = TypeDir, h_Mode = 448\<rparr> [] False,
             Entry \<lparr>h_Name = ''bin/pulumi-resource-aws'', h_Typeflag = TypeReg, h_Mode = 448\<rparr>
                   ''abc'' False] @
            Entry \<lparr>h_Name = ''latest'', h_Typeflag = CHR ''2'', h_Mode = 511\<rparr> [] False #
            [Entry \<lparr>h_Name = ''README'', h_Typeflag = TypeReg, h_Mode = 420\<rparr> ''hi'' False]))
   = (example_root [(''resource-aws-v1.0.0'',
                     DirN (None, 7) [(''bin'',
                       DirN (None, 7) [(''pulumi-resource-aws'', FileN (None, 7) ''abc'')])])],
      Some (UnexpectedFileType ''latest'' (CHR ''2'')))"
proof -
  let ?w = "example_world []"
  let ?info = "descriptor ResourcePlugin ''aws'' (Some (ver 1 0 0))"
  let ?dir = "example_plugins @ [''resource-aws-v1.0.0'']"
  let ?fs0 = "example_root [(''resource-aws-v1.0.0'', DirN (None, 7) [])]"
  let ?pre = "[Entry \<lparr>h_Name = ''bin'', h_Typeflag = TypeDir, h_Mode = 448\<rparr> [] False,
               Entry \<lparr>h_Name = ''bin/pulumi-resource-aws'', h_Typeflag = TypeReg, h_Mode = 448\<rparr>
                     ''abc'' False]"
  let ?fs1 = "example_root [(''resource-aws-v1.0.0'',
                     DirN (None, 7) [(''bin'',
                       DirN (None, 7) [(''pulumi-resource-aws'', FileN (None, 7) ''abc'')])])]"
  let ?h = "\<lparr>h_Name = ''latest'', h_Typeflag = CHR ''2'', h_Mode = 511\<rparr>"
  have a: "DirPath ?w ?info = Inr ?dir"
    by code_simp
  have b: "MkdirAll (None, 7) (root ?w) ?dir = Inr ?fs0"
    by code_simp
  have c: "untar (None, 7) ?dir ?fs0 ?pre = (?fs1, None)"
    by code_simp
  have d: "h_Typeflag ?h \<noteq> TypeDir" "h_Typeflag ?h \<noteq> TypeReg"
    by (simp_all add: TypeDir_def TypeReg_def)
  from Install_unsupported_entry [OF a b c d] show ?thesis
    by simp
qed

section \<open>Scanning: the claims\<close>

lemma SetFileMetadata_keeps:
  "SetFileMetadata fs info p = Inr info' \<Longrightarrow>
   Name info' = Name info \<and> Kind info' = Kind info \<and> Version info' = Version info"
  by (auto simp: SetFileMetadata_def split: sum.splits)

lemma plugins_loop_origin:
  "plugins_loop fs dir files acc = Inr ps \<Longrightarrow> p \<in> set ps \<Longrightarrow>
   p \<in> set acc \<or>
   (\<exists>fi \<in> set files. \<exists>v. tryPlugin fi = Some (Kind p, Name p, v) \<and> Version p = Some v)"
proof (induction fs dir files acc arbitrary: ps rule: plugins_loop.induct)
  case (1 fs dir plugins)
  then show ?case by simp
next
  case (2 fs dir fi files plugins)
  show ?case
  proof (cases "tryPlugin fi")
    case None
    with 2 show ?thesis by auto
  next
    case (Some t)
    obtain kind name version where t: "t = (kind, name, version)"
      by (cases t)
    from 2(3) Some t obtain plugin where
      m: "SetFileMetadata fs
            \<lparr>Name = name, Path = [], Kind = kind, Version = Some version, Size = 0,
             InstallTime = None, LastUsedTime = None\<rparr> (filepath_Join dir (fi_Name fi))
          = Inr plugin"
      and l: "plugins_loop fs dir files (plugins @ [plugin]) = Inr ps"
      by (auto split: sum.splits)
    from "2.IH"(2) [OF Some t [symmetric] refl m l 2(4)] SetFileMetadata_keeps [OF m] Some t
    show ?thesis by auto
  qed
qed

lemma GetPlugins_origin:
  assumes "GetPlugins w = Inr ps" "p \<in> set ps"
  shows "\<exists>dir files fi v. GetPluginDir w = Inr dir \<and> ReadDir (root w) dir = Inr files \<and>
           fi \<in> set files \<and> tryPlugin fi = Some (Kind p, Name p, v) \<and> Version p = Some v"
  using assms plugins_loop_origin [of "root w" _ _ "[]" ps p]
  by (auto simp: GetPlugins_def split: sum.splits if_splits) blast

lemma resolve_step_match:
  "match st \<in> {None, Some plugin_var} \<Longrightarrow>
   match (resolve_step kind name version st e) \<in> {None, Some plugin_var}"
  by (simp add: resolve_step_def Let_def)

lemma resolve_loop_match:
  "match st \<in> {None, Some plugin_var} \<Longrightarrow>
   match (foldl (resolve_step kind name version) st ps) \<in> {None, Some plugin_var}"
proof (induction ps arbitrary: st)
  case Nil
  then show ?case by simp
next
  case (Cons e ps)
  from Cons.IH [OF resolve_step_match [OF Cons.prems]] show ?case by simp
qed

text \<open>
  Claim C10. Every record of a scan has a version. So in the loop of \<^verbatim>\<open>GetPluginPath\<close> over
  the scanned records, at every iteration \<open>k\<close> at which a candidate is already selected,
  the record that \<open>match\<close> points to has a version: the arm for a selected candidate
  without a version is never taken, and neither does the test for a missing version in
  \<^verbatim>\<open>HasPluginGTE\<close> ever fail for a scanned record.
\<close>

theorem scanned_records_have_versions:
  assumes "GetPlugins w = Inr ps"
  shows "(\<forall>p \<in> set ps. Version p \<noteq> None) \<and>
         (\<forall>k < length ps.
            let st = foldl (resolve_step kind name version) resolve_init (take k ps);
                h = (heap st)(plugin_var := Some (ps ! k))
            in match st \<noteq> None \<longrightarrow>
               (\<exists>mt. deref h (match st) = Some mt \<and> Version mt \<noteq> None))"
proof -
  have v: "\<forall>p \<in> set ps. Version p \<noteq> None"
    using GetPlugins_origin [OF assms] by fastforce
  have m: "match (foldl (resolve_step kind name version) resolve_init (take k ps))
           \<in> {None, Some plugin_var}" for k
    by (rule resolve_loop_match) (simp add: resolve_init_def)
  have "match st \<noteq> None \<longrightarrow>
          (\<exists>mt. deref ((heap st)(plugin_var := Some (ps ! k))) (match st) = Some mt \<and>
                Version mt \<noteq> None)"
    if k: "k < length ps"
      and st: "st = foldl (resolve_step kind name version) resolve_init (take k ps)"
    for k st
  proof
    assume "match st \<noteq> None"
    with m [of k] st have "match st = Some plugin_var"
      by auto
    moreover from v k have "Version (ps ! k) \<noteq> None"
      by simp
    ultimately show "\<exists>mt. deref ((heap st)(plugin_var := Some (ps ! k))) (match st) = Some mt \<and>
                          Version mt \<noteq> None"
      by (simp add: deref_def)
  qed
  with v show ?thesis
    by (simp add: Let_def)
qed

theorem scanned_records_have_versions_witness:
  "GetPlugins (example_world [(''resource-aws-v1.0.0'', DirN (None, 0) []),
                              (''resource-aws-v1.5.0'', DirN (None, 0) [])])
   = Inr [(descriptor ResourcePlugin ''aws'' (Some (ver 1 0 0)))\<lparr>LastUsedTime := Some 0\<rparr>,
          (descriptor ResourcePlugin ''aws'' (Some (ver 1 5 0)))\<lparr>LastUsedTime := Some 0\<rparr>]
   \<and> match (resolve_step ResourcePlugin ''aws'' (Some (ver 1 0 0)) resolve_init
         ((descriptor ResourcePlugin ''aws'' (Some (ver 1 0 0)))\<lparr>LastUsedTime := Some 0\<rparr>))
       \<noteq> None
   \<and> (\<exists>mt. deref
         ((heap (resolve_step ResourcePlugin ''aws'' (Some (ver 1 0 0)) resolve_init
                  ((descriptor ResourcePlugin ''aws'' (Some (ver 1 0 0)))
                     \<lparr>LastUsedTime := Some 0\<rparr>)))
          (plugin_var :=
             Some ((descriptor ResourcePlugin ''aws'' (Some (ver 1 5 0)))\<lparr>LastUsedTime := Some 0\<rparr>)))
         (match (resolve_step ResourcePlugin ''aws'' (Some (ver 1 0 0)) resolve_init
                  ((descriptor ResourcePlugin ''aws'' (Some (ver 1 0 0)))
                     \<lparr>LastUsedTime := Some 0\<rparr>)))
         = Some mt \<and> Version mt \<noteq> None)"
proof -
  let ?w = "example_world [(''resource-aws-v1.0.0'', DirN (None, 0) []),
                           (''resource-aws-v1.5.0'', DirN (None, 0) [])]"
  let ?p1 = "(descriptor ResourcePlugin ''aws'' (Some (ver 1 0 0)))\<lparr>LastUsedTime := Some 0\<rparr>"
  let ?p2 = "(descriptor ResourcePlugin ''aws'' (Some (ver 1 5 0)))\<lparr>LastUsedTime := Some 0\<rparr>"
  let ?st = "resolve_step ResourcePlugin ''aws'' (Some (ver 1 0 0)) resolve_init ?p1"
  have g: "GetPlugins ?w = Inr [?p1, ?p2]"
    by code_simp
  have s: "match ?st \<noteq> None"
    by code_simp
  note t = scanned_records_have_versions [OF g, of ResourcePlugin "''aws''" "Some (ver 1 0 0)"]
  from t have "\<forall>k < length [?p1, ?p2].
          let st = foldl (resolve_step ResourcePlugin ''aws'' (Some (ver 1 0 0))) resolve_init
                     (take k [?p1, ?p2]);
              h = (heap st)(plugin_var := Some ([?p1, ?p2] ! k))
          in match st \<noteq> None \<longrightarrow>
             (\<exists>mt. deref h (match st) = Some mt \<and> Version mt \<noteq> None)"
    by (rule conjunct2)
  then have "Suc 0 < length [?p1, ?p2] \<longrightarrow>
         (let st = foldl (resolve_step ResourcePlugin ''aws'' (Some (ver 1 0 0))) resolve_init
                     (take (Suc 0) [?p1, ?p2]);
              h = (heap st)(plugin_var := Some ([?p1, ?p2] ! Suc 0))
          in match st \<noteq> None \<longrightarrow>
             (\<exists>mt. deref h (match st) = Some mt \<and> Version mt \<noteq> None))"
    by (rule spec)
  then have "match ?st \<noteq> None \<longrightarrow>
      (\<exists>mt. deref ((heap ?st)(plugin_var := Some ?p2)) (match ?st) = Some mt \<and> Version mt \<noteq> None)"
    unfolding Let_def by simp
  with g s show ?thesis
    by blast
qed

section \<open>The pattern and the parser: properties\<close>

text \<open>\<open>matches\<close> decides the language of an expression.\<close>

lemma conc_nil_iff: "[] \<in> conc A B \<longleftrightarrow> [] \<in> A \<and> [] \<in> B"
  by (auto simp: conc_def)

lemma concI: "xs \<in> A \<Longrightarrow> ys \<in> B \<Longrightarrow> xs @ ys \<in> conc A B"
  by (auto simp: conc_def)

lemma nullable_iff: "nullable r \<longleftrightarrow> [] \<in> lang r"
  by (induction r) (auto simp: conc_nil_iff intro: star.star_nil)

lemma conc_Cons_iff:
  "c # s \<in> conc A B \<longleftrightarrow>
   (\<exists>u v. s = u @ v \<and> c # u \<in> A \<and> v \<in> B) \<or> ([] \<in> A \<and> c # s \<in> B)"
proof
  assume "c # s \<in> conc A B"
  then obtain xs ys where x: "c # s = xs @ ys" "xs \<in> A" "ys \<in> B"
    by (auto simp: conc_def)
  show "(\<exists>u v. s = u @ v \<and> c # u \<in> A \<and> v \<in> B) \<or> ([] \<in> A \<and> c # s \<in> B)"
  proof (cases xs)
    case Nil
    with x show ?thesis by simp
  next
    case (Cons a u)
    with x have "s = u @ ys \<and> c # u \<in> A \<and> ys \<in> B" by simp
    then show ?thesis by blast
  qed
next
  assume "(\<exists>u v. s = u @ v \<and> c # u \<in> A \<and> v \<in> B) \<or> ([] \<in> A \<and> c # s \<in> B)"
  then show "c # s \<in> conc A B"
  proof
    assume "\<exists>u v. s = u @ v \<and> c # u \<in> A \<and> v \<in> B"
    then obtain u v where "s = u @ v" "c # u \<in> A" "v \<in> B" by blast
    then show ?thesis using concI[of "c # u" A v B] by simp
  next
    assume "[] \<in> A \<and> c # s \<in> B"
    then show ?thesis using concI[of "[]" A "c # s" B] by simp
  qed
qed

lemma star_Cons_split:
  "xs \<in> star A \<Longrightarrow> xs = c # s \<Longrightarrow> \<exists>u v. s = u @ v \<and> c # u \<in> A \<and> v \<in> star A"
proof (induction arbitrary: s rule: star.induct)
  case star_nil
  then show ?case by simp
next
  case (star_app ys zs)
  show ?case
  proof (cases ys)
    case Nil
    with star_app show ?thesis by simp
  next
    case (Cons a u)
    with star_app.prems star_app.hyps have "s = u @ zs \<and> c # u \<in> A \<and> zs \<in> star A" by simp
    then show ?thesis by blast
  qed
qed

lemma star_Cons_iff:
  "c # s \<in> star A \<longleftrightarrow> (\<exists>u v. s = u @ v \<and> c # u \<in> A \<and> v \<in> star A)"
proof
  assume "c # s \<in> star A"
  then show "\<exists>u v. s = u @ v \<and> c # u \<in> A \<and> v \<in> star A"
    by (rule star_Cons_split) simp
next
  assume "\<exists>u v. s = u @ v \<and> c # u \<in> A \<and> v \<in> star A"
  then obtain u v where "s = u @ v" "c # u \<in> A" "v \<in> star A" by blast
  then show "c # s \<in> star A"
    using star.star_app[of "c # u" A v] by simp
qed

lemma conc_iff: "s \<in> conc A B \<longleftrightarrow> (\<exists>u v. s = u @ v \<and> u \<in> A \<and> v \<in> B)"
  by (auto simp: conc_def)

lemma deriv_lang: "s \<in> lang (deriv c r) \<longleftrightarrow> c # s \<in> lang r"
proof (induction r arbitrary: s)
  case (Seq r1 r2)
  have "s \<in> conc (lang (deriv c r1)) (lang r2) \<longleftrightarrow>
        (\<exists>u v. s = u @ v \<and> c # u \<in> lang r1 \<and> v \<in> lang r2)"
    by (simp add: conc_iff Seq.IH)
  then show ?case
    by (simp add: conc_Cons_iff nullable_iff Seq.IH)
next
  case (Star r)
  have "s \<in> conc (lang (deriv c r)) (star (lang r)) \<longleftrightarrow>
        (\<exists>u v. s = u @ v \<and> c # u \<in> lang r \<and> v \<in> star (lang r))"
    by (simp add: conc_iff Star.IH)
  then show ?case
    by (simp add: star_Cons_iff)
qed auto

lemma matches_iff_lang: "matches r s \<longleftrightarrow> s \<in> lang r"
  by (induction s arbitrary: r) (simp_all add: nullable_iff deriv_lang)

lemma star_chars_iff: "s \<in> star {[c] | c. P c} \<longleftrightarrow> list_all P s"
proof
  assume "s \<in> star {[c] | c. P c}"
  then show "list_all P s"
    by (induction rule: star.induct) auto
next
  assume "list_all P s"
  then show "s \<in> star {[c] | c. P c}"
  proof (induction s)
    case Nil
    show ?case by (rule star.star_nil)
  next
    case (Cons a s)
    then have "[a] \<in> {[c] | c. P c}" "s \<in> star {[c] | c. P c}" by auto
    from star.star_app[OF this] show ?case by simp
  qed
qed

lemma matches_Plus_Chars: "matches (Plus (Chars P)) s \<longleftrightarrow> s \<noteq> [] \<and> list_all P s"
  by (cases s) (auto simp: matches_iff_lang Plus_def conc_nil_iff conc_Cons_iff star_chars_iff)

lemma matches_nameRe:
  "matches nameRe n \<longleftrightarrow>
   n \<noteq> [] \<and> list_all (\<lambda>c. is_alnum c \<or> c = CHR ''-'') n \<and> is_alnum (last n)"
proof -
  have "matches nameRe n \<longleftrightarrow>
        (\<exists>xs c. n = xs @ [c] \<and> list_all (\<lambda>c. is_alnum c \<or> c = CHR ''-'') xs \<and> is_alnum c)"
    by (auto simp: matches_iff_lang nameRe_def conc_def star_chars_iff)
  also have "\<dots> \<longleftrightarrow> n \<noteq> [] \<and> list_all (\<lambda>c. is_alnum c \<or> c = CHR ''-'') n \<and> is_alnum (last n)"
    by (cases n rule: rev_cases) auto
  finally show ?thesis .
qed

lemma matches_kindRe: "matches kindRe k \<longleftrightarrow> k \<noteq> [] \<and> list_all is_lower k"
  by (simp add: kindRe_def matches_Plus_Chars)

lemma splits_mem: "(a, b) \<in> set (splits s) \<Longrightarrow> s = a @ b"
  by (auto simp: splits_def)

lemma find_SomeD: "find P xs = Some x \<Longrightarrow> x \<in> set xs \<and> P x"
  by (auto simp: find_Some_iff)

lemma match_name_version_Some:
  assumes "match_name_version r = Some (n, vs)"
  shows "r = n @ ''-v'' @ vs \<and> matches nameRe n \<and> matches versionRe vs"
proof -
  from assms obtain r2 where
    f: "find (\<lambda>(n, r2). matches nameRe n \<and> take 2 r2 = ''-v'' \<and> matches versionRe (drop 2 r2))
             (splits r) = Some (n, r2)"
    and vs: "vs = drop 2 r2"
    by (auto simp: match_name_version_def)
  from find_SomeD [OF f] have m: "(n, r2) \<in> set (splits r)"
    and p: "matches nameRe n" "take 2 r2 = ''-v''" "matches versionRe (drop 2 r2)"
    by auto
  from p(2) have "r2 = ''-v'' @ drop 2 r2"
    by (metis append_take_drop_id)
  with splits_mem [OF m] vs p show ?thesis by simp
qed

lemma FindStringSubmatch_Some:
  assumes "FindStringSubmatch s = Some (k, n, vs)"
  shows "s = k @ ''-'' @ n @ ''-v'' @ vs \<and> matches kindRe k \<and> matches nameRe n \<and>
         matches versionRe vs"
proof -
  from assms obtain r1 where
    f: "find (\<lambda>(k, r1). matches kindRe k \<and> take 1 r1 = ''-'' \<and>
                         match_name_version (drop 1 r1) \<noteq> None) (splits s) = Some (k, r1)"
    and mv: "match_name_version (drop 1 r1) = Some (n, vs)"
    by (auto simp: FindStringSubmatch_def split: option.splits prod.splits)
  from find_SomeD [OF f] have m: "(k, r1) \<in> set (splits s)"
    and p: "matches kindRe k" "take 1 r1 = ''-''"
    by auto
  from p(2) have "r1 = ''-'' @ drop 1 r1"
    by (metis append_take_drop_id)
  with splits_mem [OF m] match_name_version_Some [OF mv] p show ?thesis
    by (metis append_assoc)
qed

lemma matches_versionRe_digit:
  assumes "matches versionRe vs"
  shows "vs \<noteq> [] \<and> is_digit (hd vs)"
proof -
  from assms obtain u v where "vs = u @ v" "u \<in> lang (Plus (Chars is_digit))"
    by (auto simp: matches_iff_lang versionRe_def conc_iff)
  moreover from this have "u \<noteq> [] \<and> list_all is_digit u"
    using matches_Plus_Chars [of is_digit u] by (simp add: matches_iff_lang)
  ultimately show ?thesis
    by (cases u) auto
qed

lemma IsPluginKind_nonempty: "IsPluginKind k \<Longrightarrow> k \<noteq> []"
  by (auto simp: IsPluginKind_def AnalyzerPlugin_def LanguagePlugin_def ResourcePlugin_def)

lemma tryPlugin_None_iff:
  "tryPlugin fi = None \<longleftrightarrow>
     \<not> fi_IsDir fi \<or> FindStringSubmatch (fi_Name fi) = None \<or>
     (\<exists>k n vs. FindStringSubmatch (fi_Name fi) = Some (k, n, vs) \<and>
                (\<not> IsPluginKind k \<or> ParseTolerant vs = None))"
proof (cases "FindStringSubmatch (fi_Name fi)")
  case None
  then show ?thesis by (simp add: tryPlugin_def)
next
  case (Some t)
  obtain k n vs where t: "t = (k, n, vs)" by (cases t)
  from FindStringSubmatch_Some [OF Some [unfolded t]] have "n \<noteq> []"
    by (simp add: matches_nameRe)
  with Some t show ?thesis
    by (auto simp: tryPlugin_def Let_def dest: IsPluginKind_nonempty)
qed

lemma tryPlugin_Some:
  assumes "tryPlugin fi = Some (k, n, v)"
  shows "fi_IsDir fi \<and> IsPluginKind k \<and>
         (\<exists>vs. FindStringSubmatch (fi_Name fi) = Some (k, n, vs) \<and> ParseTolerant vs = Some v)"
  using assms
  by (auto simp: tryPlugin_def Let_def split: if_splits option.splits)

lemma plugins_loop_append:
  "plugins_loop fs dir (xs @ ys) acc =
     (case plugins_loop fs dir xs acc of
        Inl e \<Rightarrow> Inl e
      | Inr acc' \<Rightarrow> plugins_loop fs dir ys acc')"
  by (induction fs dir xs acc rule: plugins_loop.induct) (auto split: option.splits sum.splits)

lemma plugins_loop_skip:
  "tryPlugin fi = None \<Longrightarrow>
   plugins_loop fs dir (xs @ fi # ys) acc = plugins_loop fs dir (xs @ ys) acc"
  by (simp add: plugins_loop_append split: sum.splits)

text \<open>
  Claim C4. \<^verbatim>\<open>tryPlugin\<close> rejects an entry exactly when it is not a directory, its name
  does not match the pattern, its kind is not one of the three, or its version does not
  parse; a name without a \<^verbatim>\<open>-v\<close> followed by a digit does not match the pattern. A
  rejected entry is skipped silently: the scan gives the same result, records or error,
  as without the entry. And every record of a scan comes from an entry of the plugin
  directory that is a directory, whose name is \<^verbatim>\<open><kind>-<name>-v<version>\<close> for the
  record's kind and name, with a valid kind and a version that parses to the record's.
\<close>

theorem GetPlugins_skips_non_plugins:
  "(tryPlugin fi = None \<longleftrightarrow>
      \<not> fi_IsDir fi \<or> FindStringSubmatch (fi_Name fi) = None \<or>
      (\<exists>k n vs. FindStringSubmatch (fi_Name fi) = Some (k, n, vs) \<and>
                 (\<not> IsPluginKind k \<or> ParseTolerant vs = None)))
   \<and> ((\<nexists>a vs. fi_Name fi = a @ ''-v'' @ vs \<and> vs \<noteq> [] \<and> is_digit (hd vs)) \<longrightarrow>
        FindStringSubmatch (fi_Name fi) = None)
   \<and> (tryPlugin fi = None \<longrightarrow>
        plugins_loop fs dir (xs @ fi # ys) acc = plugins_loop fs dir (xs @ ys) acc)
   \<and> (GetPlugins w = Inr ps \<and> p \<in> set ps \<longrightarrow>
        (\<exists>pdir files fi' vs v.
           GetPluginDir w = Inr pdir \<and> ReadDir (root w) pdir = Inr files \<and> fi' \<in> set files \<and>
           fi_IsDir fi' \<and> FindStringSubmatch (fi_Name fi') = Some (Kind p, Name p, vs) \<and>
           fi_Name fi' = Kind p @ ''-'' @ Name p @ ''-v'' @ vs \<and>
           IsPluginKind (Kind p) \<and> ParseTolerant vs = Some v \<and> Version p = Some v))"
proof (intro conjI impI)
  show "tryPlugin fi = None \<longleftrightarrow>
      \<not> fi_IsDir fi \<or> FindStringSubmatch (fi_Name fi) = None \<or>
      (\<exists>k n vs. FindStringSubmatch (fi_Name fi) = Some (k, n, vs) \<and>
                 (\<not> IsPluginKind k \<or> ParseTolerant vs = None))"
    by (rule tryPlugin_None_iff)
next
  assume n: "\<nexists>a vs. fi_Name fi = a @ ''-v'' @ vs \<and> vs \<noteq> [] \<and> is_digit (hd vs)"
  show "FindStringSubmatch (fi_Name fi) = None"
  proof (rule ccontr)
    assume "FindStringSubmatch (fi_Name fi) \<noteq> None"
    then obtain k nm vs where s: "FindStringSubmatch (fi_Name fi) = Some (k, nm, vs)"
      by auto
    from FindStringSubmatch_Some [OF s] matches_versionRe_digit [of vs]
    have "fi_Name fi = (k @ ''-'' @ nm) @ ''-v'' @ vs \<and> vs \<noteq> [] \<and> is_digit (hd vs)"
      by simp
    with n show False by blast
  qed
next
  assume "tryPlugin fi = None"
  then show "plugins_loop fs dir (xs @ fi # ys) acc = plugins_loop fs dir (xs @ ys) acc"
    by (rule plugins_loop_skip)
next
  assume a: "GetPlugins w = Inr ps \<and> p \<in> set ps"
  then obtain pdir files fi' v where
    o: "GetPluginDir w = Inr pdir" "ReadDir (root w) pdir = Inr files" "fi' \<in> set files"
       "tryPlugin fi' = Some (Kind p, Name p, v)" "Version p = Some v"
    using GetPlugins_origin [of w ps p] by blast
  from tryPlugin_Some [OF o(4)] obtain vs where
    t: "fi_IsDir fi'" "IsPluginKind (Kind p)"
       "FindStringSubmatch (fi_Name fi') = Some (Kind p, Name p, vs)" "ParseTolerant vs = Some v"
    by blast
  from FindStringSubmatch_Some [OF t(3)] have "fi_Name fi' = Kind p @ ''-'' @ Name p @ ''-v'' @ vs"
    by simp
  with o t show "\<exists>pdir files fi' vs v.
           GetPluginDir w = Inr pdir \<and> ReadDir (root w) pdir = Inr files \<and> fi' \<in> set files \<and>
           fi_IsDir fi' \<and> FindStringSubmatch (fi_Name fi') = Some (Kind p, Name p, vs) \<and>
           fi_Name fi' = Kind p @ ''-'' @ Name p @ ''-v'' @ vs \<and>
           IsPluginKind (Kind p) \<and> ParseTolerant vs = Some v \<and> Version p = Some v"
    by blast
qed

theorem GetPlugins_skips_non_plugins_witness:
  "tryPlugin \<lparr>fi_Name = ''widget-aws-v1.0.0'', fi_IsDir = True, fi_Size = 0,
              fi_BirthTime = None, fi_AccessTime = 0\<rparr> = None
   \<and> plugins_loop (example_root []) example_plugins
        ([] @ \<lparr>fi_Name = ''widget-aws-v1.0.0'', fi_IsDir = True, fi_Size = 0,
                fi_BirthTime = None, fi_AccessTime = 0\<rparr> # []) []
     = plugins_loop (example_root []) example_plugins ([] @ []) []
   \<and> GetPlugins (example_world
        [(''README'', FileN (None, 0) ''x''),
         (''resource-aws-v2.0.0'', FileN (None, 0) ''x''),
         (''resource-aws'', DirN (None, 0) []),
         (''widget-aws-v1.0.0'', DirN (None, 0) []),
         (''resource-aws-v01.0.0'', DirN (None, 0) []),
         (''resource-aws-v1.0.0'', DirN (None, 0) [])])
     = Inr [(descriptor ResourcePlugin ''aws'' (Some (ver 1 0 0)))\<lparr>LastUsedTime := Some 0\<rparr>]"
proof -
  let ?fi = "\<lparr>fi_Name = ''widget-aws-v1.0.0'', fi_IsDir = True, fi_Size = 0,
              fi_BirthTime = None, fi_AccessTime = 0\<rparr>"
  have n: "tryPlugin ?fi = None"
    by code_simp
  note t = GetPlugins_skips_non_plugins
    [of ?fi "example_root []" example_plugins "[]" "[]" "[]" "example_world []" "[]"
        "descriptor ResourcePlugin ''aws'' None"]
  from t have "tryPlugin ?fi = None \<longrightarrow>
      plugins_loop (example_root []) example_plugins ([] @ ?fi # []) []
      = plugins_loop (example_root []) example_plugins ([] @ []) []"
    by (rule conjunct1 [OF conjunct2 [OF conjunct2]])
  with n have e: "plugins_loop (example_root []) example_plugins ([] @ ?fi # []) []
      = plugins_loop (example_root []) example_plugins ([] @ []) []"
    by (rule rev_mp)
  have g: "GetPlugins (example_world
        [(''README'', FileN (None, 0) ''x''),
         (''resource-aws-v2.0.0'', FileN (None, 0) ''x''),
         (''resource-aws'', DirN (None, 0) []),
         (''widget-aws-v1.0.0'', DirN (None, 0) []),
         (''resource-aws-v01.0.0'', DirN (None, 0) []),
         (''resource-aws-v1.0.0'', DirN (None, 0) [])])
     = Inr [(descriptor ResourcePlugin ''aws'' (Some (ver 1 0 0)))\<lparr>LastUsedTime := Some 0\<rparr>]"
    by code_simp
  from n e g show ?thesis
    by (intro conjI)
qed

text \<open>
  Claim C9, as the code has it. Every record of a scan has one of the three kinds; its
  name is not empty, consists of alphanumerics and hyphens and does not end in a hyphen
  (it may begin with one); and its version parses as a semantic version, optionally with
  a prerelease suffix: the record comes from a directory of the plugin directory whose
  name is \<^verbatim>\<open><kind>-<name>-v<version>\<close> for the record's kind and name, the version part
  matches the version group of the pattern, and the record's version is what the
  version part parses to.
\<close>

theorem GetPlugins_records:
  assumes "GetPlugins w = Inr ps" and "p \<in> set ps"
  shows "IsPluginKind (Kind p) \<and>
         Name p \<noteq> [] \<and> list_all (\<lambda>c. is_alnum c \<or> c = CHR ''-'') (Name p) \<and>
         is_alnum (last (Name p)) \<and>
         (\<exists>pdir files fi vs v.
            GetPluginDir w = Inr pdir \<and> ReadDir (root w) pdir = Inr files \<and>
            fi \<in> set files \<and> fi_IsDir fi \<and>
            fi_Name fi = Kind p @ ''-'' @ Name p @ ''-v'' @ vs \<and>
            FindStringSubmatch (fi_Name fi) = Some (Kind p, Name p, vs) \<and>
            matches versionRe vs \<and> ParseTolerant vs = Some v \<and> Version p = Some v)"
proof -
  from GetPlugins_origin [OF assms] obtain pdir files fi v where
    o: "GetPluginDir w = Inr pdir" "ReadDir (root w) pdir = Inr files" "fi \<in> set files"
    and t: "tryPlugin fi = Some (Kind p, Name p, v)" and v: "Version p = Some v"
    by blast
  from tryPlugin_Some [OF t] obtain vs where
    d: "fi_IsDir fi"
    and k: "IsPluginKind (Kind p)"
    and f: "FindStringSubmatch (fi_Name fi) = Some (Kind p, Name p, vs)"
    and pt: "ParseTolerant vs = Some v"
    by blast
  from FindStringSubmatch_Some [OF f] have
    n: "fi_Name fi = Kind p @ ''-'' @ Name p @ ''-v'' @ vs"
    and mn: "matches nameRe (Name p)" and mv: "matches versionRe vs"
    by simp_all
  from o d n f mv pt v have
    "\<exists>pdir files fi vs v.
       GetPluginDir w = Inr pdir \<and> ReadDir (root w) pdir = Inr files \<and>
       fi \<in> set files \<and> fi_IsDir fi \<and>
       fi_Name fi = Kind p @ ''-'' @ Name p @ ''-v'' @ vs \<and>
       FindStringSubmatch (fi_Name fi) = Some (Kind p, Name p, vs) \<and>
       matches versionRe vs \<and> ParseTolerant vs = Some v \<and> Version p = Some v"
    by blast
  with k mn show ?thesis
    by (simp add: matches_nameRe)
qed

theorem GetPlugins_records_witness:
  "GetPlugins (example_world [(''language-nodejs-v0.11.3-rc1'', DirN (None, 0) [])])
   = Inr [\<lparr>Name = ''nodejs'', Path = [], Kind = LanguagePlugin,
           Version = Some \<lparr>Major = 0, Minor = 11, Patch = 3,
                            Pre = [\<lparr>VersionStr = ''rc1'', VersionNum = 0, IsNum = False\<rparr>],
                            Build = []\<rparr>,
           Size = 0, InstallTime = None, LastUsedTime = Some 0\<rparr>]
   \<and> IsPluginKind LanguagePlugin
   \<and> list_all (\<lambda>c. is_alnum c \<or> c = CHR ''-'') ''nodejs''
   \<and> is_alnum (last ''nodejs'')
   \<and> (\<exists>pdir files fi vs.
         GetPluginDir (example_world [(''language-nodejs-v0.11.3-rc1'', DirN (None, 0) [])])
           = Inr pdir \<and>
         ReadDir (root (example_world [(''language-nodejs-v0.11.3-rc1'', DirN (None, 0) [])]))
           pdir = Inr files \<and>
         fi \<in> set files \<and> fi_IsDir fi \<and>
         fi_Name fi = LanguagePlugin @ ''-'' @ ''nodejs'' @ ''-v'' @ vs \<and>
         matches versionRe vs \<and>
         ParseTolerant vs
           = Some \<lparr>Major = 0, Minor = 11, Patch = 3,
                   Pre = [\<lparr>VersionStr = ''rc1'', VersionNum = 0, IsNum = False\<rparr>],
                   Build = []\<rparr>)"
proof -
  let ?w = "example_world [(''language-nodejs-v0.11.3-rc1'', DirN (None, 0) [])]"
  let ?p = "\<lparr>Name = ''nodejs'', Path = [], Kind = LanguagePlugin,
           Version = Some \<lparr>Major = 0, Minor = 11, Patch = 3,
                            Pre = [\<lparr>VersionStr = ''rc1'', VersionNum = 0, IsNum = False\<rparr>],
                            Build = []\<rparr>,
           Size = 0, InstallTime = None, LastUsedTime = Some 0\<rparr>"
  have g: "GetPlugins ?w = Inr [?p]"
    by code_simp
  have m: "?p \<in> set [?p]"
    by simp
  note r = GetPlugins_records [OF g m]
  from r have k: "IsPluginKind (Kind ?p)"
    by (rule conjunct1)
  from r have l: "list_all (\<lambda>c. is_alnum c \<or> c = CHR ''-'') (Name ?p)"
    by (rule conjunct1 [OF conjunct2 [OF conjunct2]])
  from r have a: "is_alnum (last (Name ?p))"
    by (rule conjunct1 [OF conjunct2 [OF conjunct2 [OF conjunct2]]])
  from r obtain pdir files fi vs v where
    x: "GetPluginDir ?w = Inr pdir" "ReadDir (root ?w) pdir = Inr files" "fi \<in> set files"
       "fi_IsDir fi" "fi_Name fi = Kind ?p @ ''-'' @ Name ?p @ ''-v'' @ vs"
       "matches versionRe vs" "ParseTolerant vs = Some v" "Version ?p = Some v"
    by blast
  from x(7,8) have
    "ParseTolerant vs
       = Some \<lparr>Major = 0, Minor = 11, Patch = 3,
               Pre = [\<lparr>VersionStr = ''rc1'', VersionNum = 0, IsNum = False\<rparr>],
               Build = []\<rparr>"
    by simp
  with x have
    "\<exists>pdir files fi vs.
         GetPluginDir ?w = Inr pdir \<and> ReadDir (root ?w) pdir = Inr files \<and>
         fi \<in> set files \<and> fi_IsDir fi \<and>
         fi_Name fi = LanguagePlugin @ ''-'' @ ''nodejs'' @ ''-v'' @ vs \<and>
         matches versionRe vs \<and>
         ParseTolerant vs
           = Some \<lparr>Major = 0, Minor = 11, Patch = 3,
                   Pre = [\<lparr>VersionStr = ''rc1'', VersionNum = 0, IsNum = False\<rparr>],
                   Build = []\<rparr>"
    by (intro exI [of _ pdir] exI [of _ files] exI [of _ fi] exI [of _ vs]) simp
  with g k l a show ?thesis
    by simp
qed

text \<open>
  Claim C9 as stated fails: the pattern lets a name begin with a hyphen, and the
  directory \<^verbatim>\<open>resource--aws-v1.0.0\<close> is scanned as the plugin named \<^verbatim>\<open>-aws\<close>.
\<close>

theorem GetPlugins_name_with_leading_hyphen:
  "GetPlugins (example_world [(''resource--aws-v1.0.0'', DirN (None, 0) [])])
   = Inr [(descriptor ResourcePlugin ''-aws'' (Some (ver 1 0 0)))\<lparr>LastUsedTime := Some 0\<rparr>]"
  by code_simp

section \<open>Printing and parsing: the round trip\<close>

lemma digit_char_cases:
  assumes "0 \<le> d" "d < 10"
  shows "d = 0 \<or> d = 1 \<or> d = 2 \<or> d = 3 \<or> d = 4 \<or> d = 5 \<or> d = 6 \<or> d = 7 \<or> d = 8 \<or> d = (9::int)"
  using assms by arith

lemma digit_char_literals:
  "digit_char 0 = CHR ''0''" "digit_char 1 = CHR ''1''" "digit_char 2 = CHR ''2''"
  "digit_char 3 = CHR ''3''" "digit_char 4 = CHR ''4''" "digit_char 5 = CHR ''5''"
  "digit_char 6 = CHR ''6''" "digit_char 7 = CHR ''7''" "digit_char 8 = CHR ''8''"
  "digit_char 9 = CHR ''9''"
  by code_simp+

lemma digit_char_props:
  assumes "0 \<le> d" "d < 10"
  shows "is_digit (digit_char d)" "digit_val (digit_char d) = d"
    "digit_char d = CHR ''0'' \<longleftrightarrow> d = 0"
  using digit_char_cases [OF assms]
  by (auto simp: digit_char_literals is_digit_def digit_val_def less_eq_char_def)

lemma numbers_eq: "numbers = is_digit"
  by (rule ext) (simp add: numbers_def)

lemma FormatUint_digits: "0 \<le> n \<Longrightarrow> FormatUint n \<noteq> [] \<and> list_all is_digit (FormatUint n)"
proof (induction n rule: FormatUint.induct)
  case (1 n)
  show ?case
  proof (cases "n < 10")
    case True
    with 1 show ?thesis
      by (simp add: FormatUint.simps [of n] digit_char_props)
  next
    case False
    with 1 show ?thesis
      by (simp add: FormatUint.simps [of n] digit_char_props)
  qed
qed

lemma FormatUint_hd: "0 < n \<Longrightarrow> hd (FormatUint n) \<noteq> CHR ''0''"
proof (induction n rule: FormatUint.induct)
  case (1 n)
  show ?case
  proof (cases "n < 10")
    case True
    with 1 show ?thesis
      by (simp add: FormatUint.simps [of n] digit_char_props)
  next
    case False
    with 1 have "hd (FormatUint (n div 10)) \<noteq> CHR ''0''" by simp
    moreover from False have "FormatUint (n div 10) \<noteq> []"
      using FormatUint_digits [of "n div 10"] by simp
    ultimately show ?thesis using False
      by (simp add: FormatUint.simps [of n])
  qed
qed

lemma decimal_value_snoc: "decimal_value (s @ [c]) = 10 * decimal_value s + digit_val c"
  by (simp add: decimal_value_def)

lemma decimal_FormatUint: "0 \<le> n \<Longrightarrow> decimal_value (FormatUint n) = n"
proof (induction n rule: FormatUint.induct)
  case (1 n)
  show ?case
  proof (cases "n < 10")
    case True
    with 1 show ?thesis
      by (simp add: FormatUint.simps [of n] decimal_value_def digit_char_props)
  next
    case False
    with 1 show ?thesis
      by (simp add: FormatUint.simps [of n] decimal_value_snoc digit_char_props)
  qed
qed

lemma FormatUint_no_leading_zero: "0 \<le> n \<Longrightarrow> \<not> hasLeadingZeroes (FormatUint n)"
proof (cases "n = 0")
  case True
  then show ?thesis by (simp add: FormatUint.simps [of 0] hasLeadingZeroes_def)
next
  case False
  assume "0 \<le> n"
  with False have "0 < n" by simp
  from FormatUint_hd [OF this] show ?thesis by (simp add: hasLeadingZeroes_def)
qed

lemma ParseUint_FormatUint: "ParseUint (FormatUint (uint w)) = Some (w :: 64 word)"
proof -
  have "uint w < 2 ^ 64"
    using uint_bounded [of w] by simp
  then show ?thesis
    using FormatUint_digits [of "uint w"]
    by (simp add: ParseUint_def decimal_FormatUint)
qed

lemma parse_number_FormatUint: "parse_number (FormatUint (uint w)) = Some (w :: 64 word)"
  using FormatUint_digits [of "uint w"] FormatUint_no_leading_zero [of "uint w"]
  by (simp add: parse_number_def containsOnly_def numbers_eq ParseUint_FormatUint)

lemma is_digit_facts:
  assumes "is_digit c"
  shows "c \<noteq> CHR ''.''" "c \<noteq> CHR ''-''" "c \<noteq> CHR ''+''" "c \<noteq> CHR ''v''" "\<not> is_space c"
    "alphanum c" "is_alnum c"
  using assms
  by (auto simp: is_digit_def is_alnum_def alphanum_def is_space_def less_eq_char_def)

lemma alphanum_facts:
  assumes "alphanum c"
  shows "c \<noteq> CHR ''.''" "c \<noteq> CHR ''+''" "\<not> is_space c" "prerelease_class c"
  using assms
  by (auto simp: is_digit_def is_alnum_def is_lower_def is_upper_def alphanum_def is_space_def
      prerelease_class_def less_eq_char_def)

text \<open>
  The shape of the prerelease identifiers that \<^verbatim>\<open>NewPRVersion\<close> builds: a numeric
  identifier has no string, and an alphanumeric one has the number 0 and a string that
  is not empty, has only alphanumerics and hyphens, and is not all digits.
\<close>

definition canonical_PRVersion :: "PRVersion \<Rightarrow> bool" where
  "canonical_PRVersion p =
     (if IsNum p then VersionStr p = []
      else VersionNum p = 0 \<and> VersionStr p \<noteq> [] \<and> containsOnly (VersionStr p) alphanum \<and>
           \<not> containsOnly (VersionStr p) numbers)"

lemma takeWhile_sep: "sep \<notin> set a \<Longrightarrow> takeWhile (\<lambda>c. c \<noteq> sep) (a @ sep # r) = a"
  by (induction a) auto

lemma dropWhile_sep: "sep \<notin> set a \<Longrightarrow> dropWhile (\<lambda>c. c \<noteq> sep) (a @ sep # r) = sep # r"
  by (induction a) auto

lemma takeWhile_none: "sep \<notin> set a \<Longrightarrow> takeWhile (\<lambda>c. c \<noteq> sep) a = a"
  by (induction a) auto

lemma SplitN3:
  assumes "sep \<notin> set a" "sep \<notin> set b"
  shows "SplitN (a @ sep # b @ sep # c) sep 3 = [a, b, c]"
proof -
  have "SplitN (a @ sep # b @ sep # c) sep (Suc (Suc (Suc 0))) = [a, b, c]"
    using assms by (simp add: takeWhile_sep dropWhile_sep)
  then show ?thesis by (simp add: numeral_3_eq_3)
qed

lemma Split_sep: "sep \<notin> set a \<Longrightarrow> Split (a @ sep # r) sep = a # Split r sep"
  by (induction a) (auto split: list.splits)

lemma Split_Join:
  "ids \<noteq> [] \<Longrightarrow> (\<forall>i \<in> set ids. CHR ''.'' \<notin> set i) \<Longrightarrow>
   Split (Join ids ''.'') CHR ''.'' = ids"
proof (induction ids "''.''" rule: Join.induct)
  case 1
  then show ?case by simp
next
  case (2 p)
  then show ?case by (simp add: Split_no_sep)
next
  case (3 p q ps)
  then show ?case by (simp add: Split_sep)
qed

lemma PRVersion_String_chars:
  assumes "canonical_PRVersion p"
  shows "PRVersion_String p \<noteq> []" "list_all alphanum (PRVersion_String p)"
proof -
  show "PRVersion_String p \<noteq> []"
    using assms FormatUint_digits [of "uint (VersionNum p)"]
    by (auto simp: PRVersion_String_def canonical_PRVersion_def)
  show "list_all alphanum (PRVersion_String p)"
  proof (cases "IsNum p")
    case True
    have "list_all is_digit (FormatUint (uint (VersionNum p)))"
      using FormatUint_digits [of "uint (VersionNum p)"] by simp
    then have "list_all alphanum (FormatUint (uint (VersionNum p)))"
      by (auto simp: list_all_iff is_digit_facts)
    with True show ?thesis by (simp add: PRVersion_String_def)
  next
    case False
    with assms show ?thesis
      by (simp add: PRVersion_String_def canonical_PRVersion_def containsOnly_def)
  qed
qed

lemma NewPRVersion_String:
  assumes "canonical_PRVersion p"
  shows "NewPRVersion (PRVersion_String p) = Some p"
proof (cases "IsNum p")
  case True
  with assms have "p = \<lparr>VersionStr = [], VersionNum = VersionNum p, IsNum = True\<rparr>"
    by (simp add: canonical_PRVersion_def)
  moreover have "NewPRVersion (FormatUint (uint (VersionNum p)))
      = Some \<lparr>VersionStr = [], VersionNum = VersionNum p, IsNum = True\<rparr>"
    using FormatUint_digits [of "uint (VersionNum p)"]
      FormatUint_no_leading_zero [of "uint (VersionNum p)"]
    by (simp add: NewPRVersion_def containsOnly_def numbers_eq ParseUint_FormatUint)
  ultimately show ?thesis using True by (simp add: PRVersion_String_def)
next
  case False
  with assms have "p = \<lparr>VersionStr = VersionStr p, VersionNum = 0, IsNum = False\<rparr>"
    by (simp add: canonical_PRVersion_def)
  moreover from False assms have "NewPRVersion (VersionStr p)
      = Some \<lparr>VersionStr = VersionStr p, VersionNum = 0, IsNum = False\<rparr>"
    by (simp add: NewPRVersion_def canonical_PRVersion_def)
  ultimately show ?thesis using False by (simp add: PRVersion_String_def)
qed

lemma parse_prerelease_String:
  "list_all canonical_PRVersion pre \<Longrightarrow>
   parse_prerelease (map PRVersion_String pre) = Some pre"
  by (induction pre) (simp_all add: NewPRVersion_String)

lemma NewPRVersion_canonical: "NewPRVersion s = Some p \<Longrightarrow> canonical_PRVersion p"
  by (auto simp: NewPRVersion_def canonical_PRVersion_def split: if_splits option.splits)

lemma parse_prerelease_canonical:
  "parse_prerelease ss = Some pre \<Longrightarrow> list_all canonical_PRVersion pre"
  by (induction ss arbitrary: pre) (auto split: option.splits dest: NewPRVersion_canonical)

text \<open>Every version that \<^verbatim>\<open>Parse\<close> returns has prerelease identifiers of this shape.\<close>

definition canonical_semver :: "semver \<Rightarrow> bool" where
  "canonical_semver v = list_all canonical_PRVersion (Pre v)"

lemma set_Join: "set (Join ids sep) \<subseteq> (\<Union>i \<in> set ids. set i) \<union> set sep"
  by (induction ids sep rule: Join.induct) auto

lemma dropWhile_id: "(\<forall>c \<in> set s. \<not> P c) \<Longrightarrow> dropWhile P s = s"
  by (cases s) auto

lemma TrimSpace_no_space: "(\<forall>c \<in> set s. \<not> is_space c) \<Longrightarrow> TrimSpace s = s"
  by (simp add: TrimSpace_def dropWhile_id)

lemma dot_not_space: "\<not> is_space CHR ''.''" "\<not> is_space CHR ''-''"
  by (simp_all add: is_space_def)

lemma FormatUint_set: "0 \<le> n \<Longrightarrow> c \<in> set (FormatUint n) \<Longrightarrow> is_digit c"
  using FormatUint_digits [of n] by (simp add: list_all_iff)

lemma pre_Join_chars:
  assumes "list_all canonical_PRVersion pre"
    and "c \<in> set (Join (map PRVersion_String pre) ''.'')"
  shows "alphanum c \<or> c = CHR ''.''"
proof -
  from assms(2) set_Join [of "map PRVersion_String pre" "''.''"]
  have "c \<in> (\<Union>i \<in> set (map PRVersion_String pre). set i) \<or> c = CHR ''.''"
    by auto
  then show ?thesis
  proof
    assume "c \<in> (\<Union>i \<in> set (map PRVersion_String pre). set i)"
    then obtain p where "p \<in> set pre" "c \<in> set (PRVersion_String p)" by auto
    with assms(1) PRVersion_String_chars(2) [of p] show ?thesis
      by (auto simp: list_all_iff)
  qed simp
qed

lemma pre_ids:
  assumes "list_all canonical_PRVersion pre"
  shows "\<forall>i \<in> set (map PRVersion_String pre). CHR ''.'' \<notin> set i"
proof
  fix i assume "i \<in> set (map PRVersion_String pre)"
  then obtain p where "p \<in> set pre" "i = PRVersion_String p" by auto
  with assms PRVersion_String_chars(2) [of p] have "list_all alphanum i"
    by (auto simp: list_all_iff)
  then show "CHR ''.'' \<notin> set i"
    using alphanum_facts(1) by (auto simp: list_all_iff)
qed

text \<open>The shape of the printed version.\<close>

definition pre_suffix :: "semver \<Rightarrow> string" where
  "pre_suffix v = (if Pre v \<noteq> [] then ''-'' @ Join (map PRVersion_String (Pre v)) ''.'' else [])"

lemma semver_String_shape:
  "Build v = [] \<Longrightarrow>
   semver_String v = FormatUint (uint (Major v)) @ CHR ''.'' # FormatUint (uint (Minor v)) @
     CHR ''.'' # (FormatUint (uint (Patch v)) @ pre_suffix v)"
  by (simp add: semver_String_def pre_suffix_def)

lemma pre_suffix_chars:
  assumes "canonical_semver v" "c \<in> set (pre_suffix v)"
  shows "alphanum c \<or> c = CHR ''.''"
  using assms pre_Join_chars [of "Pre v" c]
  by (auto simp: pre_suffix_def canonical_semver_def alphanum_def split: if_splits)

lemma patch_part_parse:
  assumes "canonical_semver v"
  defines "p2 \<equiv> FormatUint (uint (Patch v)) @ pre_suffix v"
  shows "CHR ''+'' \<notin> set p2"
    and "takeWhile (\<lambda>c. c \<noteq> CHR ''-'') p2 = FormatUint (uint (Patch v))"
    and "(if CHR ''-'' \<in> set p2
          then Split (tl (dropWhile (\<lambda>c. c \<noteq> CHR ''-'') p2)) CHR ''.'' else [])
         = map PRVersion_String (Pre v)"
proof -
  let ?P = "FormatUint (uint (Patch v))"
  have d: "\<And>c. c \<in> set ?P \<Longrightarrow> is_digit c"
    by (rule FormatUint_set) simp_all
  have nm: "CHR ''-'' \<notin> set ?P"
    using d is_digit_facts(2) by blast
  show "CHR ''+'' \<notin> set p2"
    using d is_digit_facts(3) pre_suffix_chars [OF assms(1)] alphanum_facts(2)
    unfolding p2_def by auto
  show "takeWhile (\<lambda>c. c \<noteq> CHR ''-'') p2 = ?P"
    using nm by (simp add: p2_def pre_suffix_def takeWhile_sep takeWhile_none)
  show "(if CHR ''-'' \<in> set p2
          then Split (tl (dropWhile (\<lambda>c. c \<noteq> CHR ''-'') p2)) CHR ''.'' else [])
         = map PRVersion_String (Pre v)"
  proof (cases "Pre v = []")
    case True
    with nm show ?thesis by (simp add: p2_def pre_suffix_def)
  next
    case False
    then have "map PRVersion_String (Pre v) \<noteq> []" by simp
    from Split_Join [OF this pre_ids] assms(1) False nm show ?thesis
      by (simp add: p2_def pre_suffix_def dropWhile_sep canonical_semver_def)
  qed
qed

lemma semver_Parse_parts:
  assumes "s \<noteq> []" and "SplitN s CHR ''.'' 3 = [p0, p1, p2]"
    and "parse_number p0 = Some a" and "parse_number p1 = Some b"
    and "CHR ''+'' \<notin> set p2"
    and "takeWhile (\<lambda>c. c \<noteq> CHR ''-'') p2 = pstr" and "parse_number pstr = Some c"
    and "(if CHR ''-'' \<in> set p2
          then Split (tl (dropWhile (\<lambda>c. c \<noteq> CHR ''-'') p2)) CHR ''.'' else []) = ids"
    and "parse_prerelease ids = Some pre"
  shows "semver_Parse s = Some \<lparr>Major = a, Minor = b, Patch = c, Pre = pre, Build = []\<rparr>"
proof -
  from assms(5) have tw: "takeWhile (\<lambda>c. c \<noteq> CHR ''+'') p2 = p2"
    by (rule takeWhile_none)
  show ?thesis
    unfolding semver_Parse_def
    using assms by (auto simp: tw Let_def split: if_splits)
qed

lemma semver_Parse_String:
  assumes "canonical_semver v" "Build v = []"
  shows "semver_Parse (semver_String v) = Some v"
proof -
  let ?M = "FormatUint (uint (Major v))" and ?m = "FormatUint (uint (Minor v))"
  let ?p2 = "FormatUint (uint (Patch v)) @ pre_suffix v"
  have nd: "CHR ''.'' \<notin> set ?M" "CHR ''.'' \<notin> set ?m"
    using FormatUint_set [of "uint (Major v)"] FormatUint_set [of "uint (Minor v)"]
      is_digit_facts(1) by auto
  have s: "SplitN (semver_String v) CHR ''.'' 3 = [?M, ?m, ?p2]"
    unfolding semver_String_shape [OF assms(2)] by (rule SplitN3 [OF nd])
  have ne: "semver_String v \<noteq> []"
    by (simp add: semver_String_shape [OF assms(2)])
  note pp = patch_part_parse [OF assms(1)]
  have pr: "parse_prerelease (map PRVersion_String (Pre v)) = Some (Pre v)"
    using assms(1) by (simp add: parse_prerelease_String canonical_semver_def)
  have "semver_Parse (semver_String v)
        = Some \<lparr>Major = Major v, Minor = Minor v, Patch = Patch v, Pre = Pre v, Build = []\<rparr>"
    by (rule semver_Parse_parts [OF ne s parse_number_FormatUint parse_number_FormatUint
          pp(1) pp(2) parse_number_FormatUint pp(3) pr])
  with assms(2) show ?thesis by simp
qed

lemma semver_String_chars:
  assumes "canonical_semver v" "Build v = []" "c \<in> set (semver_String v)"
  shows "alphanum c \<or> c = CHR ''.''"
  using assms(3) FormatUint_set [of "uint (Major v)" c] FormatUint_set [of "uint (Minor v)" c]
    FormatUint_set [of "uint (Patch v)" c] pre_suffix_chars [OF assms(1), of c]
    is_digit_facts(6) [of c]
  unfolding semver_String_shape [OF assms(2)] by auto

lemma semver_String_hd:
  assumes "Build v = []"
  shows "is_digit (hd (semver_String v))"
proof -
  have "FormatUint (uint (Major v)) \<noteq> []" "list_all is_digit (FormatUint (uint (Major v)))"
    using FormatUint_digits [of "uint (Major v)"] by simp_all
  then show ?thesis
    unfolding semver_String_shape [OF assms]
    by (cases "FormatUint (uint (Major v))") auto
qed

lemma ParseTolerant_String:
  assumes "canonical_semver v" "Build v = []"
  shows "ParseTolerant (semver_String v) = Some v"
proof -
  let ?V = "semver_String v"
  have ns: "\<forall>c \<in> set ?V. \<not> is_space c"
    using semver_String_chars [OF assms] alphanum_facts(3) dot_not_space(1) by blast
  have ne: "?V \<noteq> []"
    by (simp add: semver_String_shape [OF assms(2)])
  have "hd ?V \<noteq> CHR ''v''"
    using semver_String_hd [OF assms(2)] is_digit_facts(4) by blast
  with ne have tp: "TrimPrefix ?V ''v'' = ?V"
    by (cases ?V) (auto simp: TrimPrefix_def)
  have nd: "CHR ''.'' \<notin> set (FormatUint (uint (Major v)))"
    "CHR ''.'' \<notin> set (FormatUint (uint (Minor v)))"
    using FormatUint_set [of "uint (Major v)"] FormatUint_set [of "uint (Minor v)"]
      is_digit_facts(1) by auto
  have "length (SplitN ?V CHR ''.'' 3) = 3"
    unfolding semver_String_shape [OF assms(2)] by (simp add: SplitN3 [OF nd])
  then show ?thesis
    by (simp add: ParseTolerant_def TrimSpace_no_space [OF ns] tp Let_def
        semver_Parse_String [OF assms])
qed

lemma find_map_rev_upt:
  "i \<le> n \<Longrightarrow> P (f i) \<Longrightarrow> (\<forall>j. i < j \<and> j \<le> n \<longrightarrow> \<not> P (f j)) \<Longrightarrow>
   find P (map f (rev [0..<Suc n])) = Some (f i)"
proof (induction n)
  case 0
  then show ?case by simp
next
  case (Suc n)
  show ?case
  proof (cases "i = Suc n")
    case True
    with Suc.prems show ?thesis by simp
  next
    case False
    with Suc.prems have "i \<le> n" "\<not> P (f (Suc n))" by auto
    moreover from Suc.prems have "\<forall>j. i < j \<and> j \<le> n \<longrightarrow> \<not> P (f j)" by auto
    ultimately show ?thesis using Suc.IH Suc.prems(2) by simp
  qed
qed

lemma find_splits:
  assumes "i \<le> length s" "P (take i s, drop i s)"
    and "\<forall>j. i < j \<and> j \<le> length s \<longrightarrow> \<not> P (take j s, drop j s)"
  shows "find P (splits s) = Some (take i s, drop i s)"
  unfolding splits_def
  using find_map_rev_upt [of i "length s" P "\<lambda>i. (take i s, drop i s)"] assms by simp

lemma take2_dash:
  assumes "take 2 (drop j r) = ''-v''"
  shows "j < length r \<and> r ! j = CHR ''-''"
proof -
  from assms have "drop j r \<noteq> []" by auto
  then have j: "j < length r" by simp
  from assms have "hd (drop j r) = CHR ''-''"
    by (cases "drop j r") auto
  with j show ?thesis by (simp add: hd_drop_conv_nth)
qed

lemma Join_nonempty: "ids \<noteq> [] \<Longrightarrow> hd ids \<noteq> [] \<Longrightarrow> Join ids sep \<noteq> []"
  by (induction ids sep rule: Join.induct) auto

lemma matches_append:
  "matches r1 xs \<Longrightarrow> matches r2 ys \<Longrightarrow> matches (Seq r1 r2) (xs @ ys)"
  by (auto simp: matches_iff_lang conc_iff)

lemma matches_any_dot: "matches any_char ''.''"
  by (simp add: any_char_def)

lemma matches_digits: "0 \<le> n \<Longrightarrow> matches (Plus (Chars is_digit)) (FormatUint n)"
  using FormatUint_digits [of n] by (simp add: matches_Plus_Chars)

lemma matches_pre_suffix:
  assumes "canonical_semver v"
  shows "matches (Opt (Seq (Lit CHR ''-'') (Plus (Chars prerelease_class)))) (pre_suffix v)"
proof (cases "Pre v = []")
  case True
  then show ?thesis by (simp add: pre_suffix_def Opt_def)
next
  case False
  let ?J = "Join (map PRVersion_String (Pre v)) ''.''"
  from False assms have "canonical_PRVersion (hd (Pre v))"
    by (cases "Pre v") (auto simp: canonical_semver_def)
  then have "hd (map PRVersion_String (Pre v)) \<noteq> []"
    using False PRVersion_String_chars(1) by (simp add: hd_map)
  with False have ne: "?J \<noteq> []"
    by (intro Join_nonempty) simp_all
  have "\<forall>c \<in> set ?J. prerelease_class c"
  proof
    fix c assume "c \<in> set ?J"
    with pre_Join_chars [of "Pre v" c] assms have "alphanum c \<or> c = CHR ''.''"
      by (simp add: canonical_semver_def)
    then show "prerelease_class c"
      using alphanum_facts(4) by (auto simp: prerelease_class_def)
  qed
  with ne have "matches (Plus (Chars prerelease_class)) ?J"
    by (simp add: matches_Plus_Chars list_all_iff)
  moreover have "matches (Lit CHR ''-'') ''-''"
    by (simp add: Lit_def)
  ultimately have "matches (Seq (Lit CHR ''-'') (Plus (Chars prerelease_class))) (''-'' @ ?J)"
    by (rule matches_append [rotated])
  then have "matches (Opt (Seq (Lit CHR ''-'') (Plus (Chars prerelease_class)))) (''-'' @ ?J)"
    by (simp add: matches_iff_lang Opt_def)
  with False show ?thesis by (simp add: pre_suffix_def)
qed

lemma matches_versionRe_String:
  assumes "canonical_semver v" "Build v = []"
  shows "matches versionRe (semver_String v)"
proof -
  let ?M = "FormatUint (uint (Major v))" and ?m = "FormatUint (uint (Minor v))"
  let ?P = "FormatUint (uint (Patch v))"
  let ?D = "Plus (Chars is_digit)"
  let ?O = "Opt (Seq (Lit CHR ''-'') (Plus (Chars prerelease_class)))"
  have 1: "matches (Seq ?D ?O) (?P @ pre_suffix v)"
    by (intro matches_append matches_digits matches_pre_suffix assms) simp
  have 2: "matches (Seq any_char (Seq ?D ?O)) (''.'' @ ?P @ pre_suffix v)"
    by (intro matches_append matches_any_dot 1)
  have 3: "matches (Seq ?D (Seq any_char (Seq ?D ?O))) (?m @ ''.'' @ ?P @ pre_suffix v)"
    by (intro matches_append matches_digits 2) simp
  have 4: "matches (Seq any_char (Seq ?D (Seq any_char (Seq ?D ?O))))
             (''.'' @ ?m @ ''.'' @ ?P @ pre_suffix v)"
    by (intro matches_append matches_any_dot 3)
  have "matches (Seq ?D (Seq any_char (Seq ?D (Seq any_char (Seq ?D ?O)))))
             (?M @ ''.'' @ ?m @ ''.'' @ ?P @ pre_suffix v)"
    by (intro matches_append matches_digits 4) simp
  then show ?thesis
    by (simp add: versionRe_def semver_String_shape [OF assms(2)])
qed

lemma semver_Parse_canonical: "semver_Parse s = Some v \<Longrightarrow> canonical_semver v"
  unfolding semver_Parse_def canonical_semver_def
  by (auto simp: Let_def split: if_splits list.splits option.splits
      dest: parse_prerelease_canonical)

lemma nameRe_no_dot:
  assumes "matches nameRe n"
  shows "CHR ''.'' \<notin> set n"
  using assms
  by (auto simp: matches_nameRe list_all_iff is_alnum_def is_lower_def is_upper_def is_digit_def
      less_eq_char_def)

lemma nth_in_take: "q < j \<Longrightarrow> q < length r \<Longrightarrow> r ! q \<in> set (take j r)"
  by (metis in_set_conv_nth length_take min_less_iff_conj nth_take)

lemma match_name_version_Dir:
  assumes mn: "matches nameRe name" and mv: "matches versionRe V"
    and shape: "V = M @ CHR ''.'' # rest" and dig: "list_all is_digit M"
  shows "match_name_version (name @ ''-v'' @ V) = Some (name, V)"
proof -
  define r where "r = name @ ''-v'' @ V"
  define T where "T = CHR ''v'' # M @ ''.''"
  let ?P = "\<lambda>(n, r2). matches nameRe n \<and> take 2 r2 = ''-v'' \<and> matches versionRe (drop 2 r2)"
  have r: "r = (name @ ''-'') @ T @ rest"
    by (simp add: r_def T_def shape)
  have here: "?P (take (length name) r, drop (length name) r)"
    using mn mv by (simp add: r_def)
  have le: "length name \<le> length r"
    by (simp add: r_def)
  have q: "length name + 2 + length M < length r" "r ! (length name + 2 + length M) = CHR ''.''"
    by (simp_all add: r_def shape nth_append)
  have later: "\<not> ?P (take j r, drop j r)" if j: "length name < j" for j
  proof
    assume p: "?P (take j r, drop j r)"
    then have "matches nameRe (take j r)" by simp
    then have a: "CHR ''.'' \<notin> set (take j r)"
      by (rule nameRe_no_dot)
    from p have "take 2 (drop j r) = ''-v''" by simp
    from take2_dash [OF this] have b: "j < length r" "r ! j = CHR ''-''"
      by simp_all
    have "j \<le> length name + 2 + length M"
    proof (rule ccontr)
      assume "\<not> j \<le> length name + 2 + length M"
      then have "length name + 2 + length M < j" by simp
      from nth_in_take [OF this q(1)] q(2) a show False by simp
    qed
    with j have k: "j - length (name @ ''-'') < length T" "length (name @ ''-'') \<le> j"
      by (simp_all add: T_def)
    have "r ! j = (T @ rest) ! (j - length (name @ ''-''))"
      unfolding r using k(2) by (simp only: nth_append) simp
    also have "\<dots> = T ! (j - length (name @ ''-''))"
      using k(1) by (simp only: nth_append) simp
    also have "\<dots> \<in> set T"
      using k(1) by (rule nth_mem)
    finally have "CHR ''-'' \<in> set T"
      using b(2) by simp
    then show False
      using dig is_digit_facts(2) by (auto simp: T_def list_all_iff)
  qed
  have "find ?P (splits r) = Some (take (length name) r, drop (length name) r)"
    using le here later by (intro find_splits) blast+
  then show ?thesis
    by (simp add: match_name_version_def r_def)
qed

lemma IsPluginKind_lower: "IsPluginKind k \<Longrightarrow> k \<noteq> [] \<and> list_all is_lower k"
  by (auto simp: IsPluginKind_def AnalyzerPlugin_def LanguagePlugin_def ResourcePlugin_def
      is_lower_def less_eq_char_def)

lemma FindStringSubmatch_Dir:
  assumes k: "IsPluginKind kind"
    and mv: "match_name_version r = Some (name, V)"
  shows "FindStringSubmatch (kind @ ''-'' @ r) = Some (kind, name, V)"
proof -
  define s where "s = kind @ ''-'' @ r"
  let ?P = "\<lambda>(k, r1). matches kindRe k \<and> take 1 r1 = ''-'' \<and>
                         match_name_version (drop 1 r1) \<noteq> None"
  have here: "?P (take (length kind) s, drop (length kind) s)"
    using IsPluginKind_lower [OF k] mv by (simp add: matches_kindRe s_def)
  have le: "length kind \<le> length s"
    by (simp add: s_def)
  have q: "length kind < length s" "s ! length kind = CHR ''-''"
    by (simp_all add: s_def nth_append)
  have later: "\<not> ?P (take j s, drop j s)" if j: "length kind < j" for j
  proof
    assume "?P (take j s, drop j s)"
    then have l: "list_all is_lower (take j s)"
      by (simp add: matches_kindRe)
    from nth_in_take [OF j q(1)] q(2) have "CHR ''-'' \<in> set (take j s)"
      by simp
    with l have "is_lower CHR ''-''"
      by (simp add: list_all_iff)
    then show False
      by (simp add: is_lower_def less_eq_char_def)
  qed
  have "find ?P (splits s) = Some (take (length kind) s, drop (length kind) s)"
    using le here later by (intro find_splits) blast+
  then show ?thesis
    using mv by (simp add: FindStringSubmatch_def s_def)
qed

text \<open>
  Claim C2, as the code has it. Take a descriptor whose kind is one of the three, whose
  name is not empty, consists of alphanumerics and hyphens and ends in an alphanumeric,
  and whose version is a valid semantic version (one that the library's \<^verbatim>\<open>Parse\<close> returns
  for some string) without build metadata. Then \<^verbatim>\<open>tryPlugin\<close> on a directory named
  \<^verbatim>\<open>Dir\<close> of the descriptor gives back exactly the descriptor's kind, name and version.
  (The first character of the name is not constrained here: the theorem covers the
  names of the claim and more.)
\<close>

theorem Parse_Dir_roundtrip:
  assumes "IsPluginKind (Kind d)"
    and "Name d \<noteq> []" and "list_all (\<lambda>c. is_alnum c \<or> c = CHR ''-'') (Name d)"
    and "is_alnum (last (Name d))"
    and "Version d = Some v" and "semver_Parse s = Some v" and "Build v = []"
    and "fi_IsDir fi" and "fi_Name fi = Dir d"
  shows "tryPlugin fi = Some (Kind d, Name d, v)"
proof -
  have c: "canonical_semver v"
    using assms(6) by (rule semver_Parse_canonical)
  have mn: "matches nameRe (Name d)"
    using assms(2-4) by (simp add: matches_nameRe)
  have mv: "matches versionRe (semver_String v)"
    using c assms(7) by (rule matches_versionRe_String)
  have dig: "list_all is_digit (FormatUint (uint (Major v)))"
    using FormatUint_digits [of "uint (Major v)"] by simp
  have "match_name_version (Name d @ ''-v'' @ semver_String v) = Some (Name d, semver_String v)"
    by (rule match_name_version_Dir [OF mn mv semver_String_shape [OF assms(7)] dig])
  from FindStringSubmatch_Dir [OF assms(1) this]
  have f: "FindStringSubmatch (fi_Name fi) = Some (Kind d, Name d, semver_String v)"
    using assms(5,9) by (simp add: Dir_def)
  have p: "ParseTolerant (semver_String v) = Some v"
    using c assms(7) by (rule ParseTolerant_String)
  show ?thesis
    using assms(1,2,8) IsPluginKind_nonempty [OF assms(1)] f p
    by (simp add: tryPlugin_def)
qed

theorem Parse_Dir_roundtrip_witness:
  "Dir (descriptor LanguagePlugin ''nodejs''
          (Some \<lparr>Major = 0, Minor = 11, Patch = 3,
                 Pre = [\<lparr>VersionStr = ''rc1'', VersionNum = 0, IsNum = False\<rparr>,
                        \<lparr>VersionStr = [], VersionNum = 42, IsNum = True\<rparr>],
                 Build = []\<rparr>))
   = ''language-nodejs-v0.11.3-rc1.42''
   \<and> tryPlugin \<lparr>fi_Name = ''language-nodejs-v0.11.3-rc1.42'', fi_IsDir = True, fi_Size = 0,
                fi_BirthTime = None, fi_AccessTime = 0\<rparr>
     = Some (LanguagePlugin, ''nodejs'',
             \<lparr>Major = 0, Minor = 11, Patch = 3,
              Pre = [\<lparr>VersionStr = ''rc1'', VersionNum = 0, IsNum = False\<rparr>,
                     \<lparr>VersionStr = [], VersionNum = 42, IsNum = True\<rparr>],
              Build = []\<rparr>)"
proof -
  let ?v = "\<lparr>Major = 0, Minor = 11, Patch = 3,
             Pre = [\<lparr>VersionStr = ''rc1'', VersionNum = 0, IsNum = False\<rparr>,
                    \<lparr>VersionStr = [], VersionNum = 42, IsNum = True\<rparr>],
             Build = []\<rparr>"
  let ?d = "descriptor LanguagePlugin ''nodejs'' (Some ?v)"
  let ?fi = "\<lparr>fi_Name = ''language-nodejs-v0.11.3-rc1.42'', fi_IsDir = True, fi_Size = 0,
              fi_BirthTime = None, fi_AccessTime = 0\<rparr>"
  have n: "Dir ?d = ''language-nodejs-v0.11.3-rc1.42''"
    by code_simp
  have a1: "IsPluginKind (Kind ?d)"
    by (simp add: descriptor_def IsPluginKind_def)
  have a2: "Name ?d \<noteq> []"
    by (simp add: descriptor_def)
  have a3: "list_all (\<lambda>c. is_alnum c \<or> c = CHR ''-'') (Name ?d)"
    by code_simp
  have a4: "is_alnum (last (Name ?d))"
    by code_simp
  have a5: "Version ?d = Some ?v"
    by (simp add: descriptor_def)
  have a6: "semver_Parse ''0.11.3-rc1.42'' = Some ?v"
    by code_simp
  have a7: "Build ?v = []"
    by simp
  have a8: "fi_IsDir ?fi"
    by simp
  have a9: "fi_Name ?fi = Dir ?d"
    using n by simp
  from Parse_Dir_roundtrip [OF a1 a2 a3 a4 a5 a6 a7 a8 a9] n show ?thesis
    by (simp add: descriptor_def)
qed

text \<open>
  Claim C2 as stated fails for a version with build metadata: \<^verbatim>\<open>1.0.0+build7\<close> is a
  semantic version that the library parses, the directory name of the descriptor is
  \<^verbatim>\<open>resource-aws-v1.0.0+build7\<close>, and the pattern has no \<^verbatim>\<open>+\<close>, so \<^verbatim>\<open>tryPlugin\<close>
  rejects the directory.
\<close>

theorem Parse_Dir_build_metadata:
  "semver_Parse ''1.0.0+build7'' = Some ((ver 1 0 0)\<lparr>Build := [''build7'']\<rparr>)
   \<and> Dir (descriptor ResourcePlugin ''aws'' (Some ((ver 1 0 0)\<lparr>Build := [''build7'']\<rparr>)))
     = ''resource-aws-v1.0.0+build7''
   \<and> tryPlugin \<lparr>fi_Name = Dir (descriptor ResourcePlugin ''aws''
                                  (Some ((ver 1 0 0)\<lparr>Build := [''build7'']\<rparr>))),
                fi_IsDir = True, fi_Size = 0, fi_BirthTime = None, fi_AccessTime = 0\<rparr> = None"
  by code_simp

end
